theory Spec2Isabelle
  imports Main "HOL-Library.Sublist"
begin

section \<open>Strings and character classes\<close>

text \<open>
  A JavaScript string is modelled as a \<^typ>\<open>string\<close>, a list of characters with codes
  \<open>0..255\<close>. Every function of \<open>Utils.ts\<close> below inspects code units one at a time and
  only ever tests them against ASCII ranges or ASCII literals.
\<close>

definition isUpperAZ :: "char \<Rightarrow> bool" where
  "isUpperAZ c = (65 \<le> (of_char c :: nat) \<and> (of_char c :: nat) \<le> 90)"

definition isLowerAZ :: "char \<Rightarrow> bool" where
  "isLowerAZ c = (97 \<le> (of_char c :: nat) \<and> (of_char c :: nat) \<le> 122)"

definition isDigit09 :: "char \<Rightarrow> bool" where
  "isDigit09 c = (48 \<le> (of_char c :: nat) \<and> (of_char c :: nat) \<le> 57)"

text \<open>
  \<open>toUpperCase\<close> on one code unit. The callers below apply it to ASCII letters only
  (\<open>camelize\<close> guards the call by the code-unit test, \<open>capitalize\<close> is applied to the
  output of \<open>camelize\<close> or to the literals \<open>id\<close> and \<open>uuid\<close>); other characters are
  left as they are.
\<close>

definition toUpperCaseChar :: "char \<Rightarrow> char" where
  "toUpperCaseChar c = (if isLowerAZ c then char_of ((of_char c :: nat) - 32) else c)"

subsection \<open>camelize, identifier\<close>

text \<open>
  The loop of \<open>camelize\<close>: the remaining input, the accumulated \<open>str\<close> and the flag
  \<open>hadSymbol\<close>.
\<close>

fun camelize_loop :: "string \<Rightarrow> string \<Rightarrow> bool \<Rightarrow> string" where
  "camelize_loop [] str hadSymbol = str"
| "camelize_loop (c # cs) str hadSymbol =
     (if isUpperAZ c \<or> isLowerAZ c
      then camelize_loop cs (str @ [if hadSymbol then toUpperCaseChar c else c]) False
      else if isDigit09 c
      then (if length str > 0 then camelize_loop cs (str @ [c]) True
            else camelize_loop cs str hadSymbol)
      else if length str > 0 then camelize_loop cs str True
      else camelize_loop cs str hadSymbol)"

definition camelize :: "string \<Rightarrow> string" where
  "camelize self = camelize_loop self [] False"

text \<open>\<open>String.capitalize\<close> of the effect library: upper-case the first code unit.\<close>

fun capitalize :: "string \<Rightarrow> string" where
  "capitalize [] = []"
| "capitalize (c # cs) = toUpperCaseChar c # cs"

definition identifier_str :: "string \<Rightarrow> string" where
  "identifier_str operationId = capitalize (camelize operationId)"

subsection \<open>isIdField, brandNameForId\<close>

text \<open>
  \<open>ID_PATTERN\<close> is the regular expression
  \<^verbatim>\<open>/^id$|Id$|_id$|ID$|^uuid$|Uuid$|_uuid$/\<close>: an alternation of literals, each anchored
  at the end of the key and some also at its start. \<open>Alt s lit e\<close> is one alternative:
  the literal \<open>lit\<close>, with \<open>^\<close> in front when \<open>s\<close> holds and \<open>$\<close> behind when \<open>e\<close>
  holds. \<open>RegExp.test\<close> succeeds when some alternative matches at some position.
\<close>

datatype alt = Alt bool string bool

fun altMatchesAt :: "alt \<Rightarrow> string \<Rightarrow> nat \<Rightarrow> bool" where
  "altMatchesAt (Alt s lit e) key i =
     ((if s then i = 0 else True) \<and>
      take (length lit) (drop i key) = lit \<and>
      (if e then i + length lit = length key else True))"

definition regexTest :: "alt list \<Rightarrow> string \<Rightarrow> bool" where
  "regexTest alts key =
     list_ex (\<lambda>i. list_ex (\<lambda>a. altMatchesAt a key i) alts) [0 ..< Suc (length key)]"

definition ID_PATTERN :: "alt list" where
  "ID_PATTERN =
     [Alt True ''id'' True, Alt False ''Id'' True, Alt False ''_id'' True,
      Alt False ''ID'' True, Alt True ''uuid'' True, Alt False ''Uuid'' True,
      Alt False ''_uuid'' True]"

definition isIdField :: "string \<Rightarrow> bool" where
  "isIdField key = regexTest ID_PATTERN key"

definition brandNameForId :: "string \<Rightarrow> string \<Rightarrow> string" where
  "brandNameForId key parentName =
     (if key = ''id'' \<or> key = ''uuid'' then parentName @ capitalize key
      else identifier_str key)"

subsection \<open>toComment\<close>

definition newline :: char where
  "newline = CHR 0x0A"

text \<open>
  \<open>description.replace(/\*\//g, " * /")\<close>: the scan goes left to right and every match
  of the two characters \<open>*/\<close> is replaced; the scan resumes behind the match.
\<close>

fun escapeCommentEnd :: "string \<Rightarrow> string" where
  "escapeCommentEnd (c # d # rest) =
     (if c = CHR ''*'' \<and> d = CHR ''/'' then '' * /'' @ escapeCommentEnd rest
      else c # escapeCommentEnd (d # rest))"
| "escapeCommentEnd s = s"

text \<open>\<open>split(sep)\<close> on a one-character separator and \<open>join(sep)\<close>.\<close>

fun splitOn :: "char \<Rightarrow> string \<Rightarrow> string list" where
  "splitOn sep [] = [[]]"
| "splitOn sep (c # cs) =
     (if c = sep then [] # splitOn sep cs
      else (case splitOn sep cs of
              [] \<Rightarrow> [[c]]
            | l # ls \<Rightarrow> (c # l) # ls))"

fun joinWith :: "string \<Rightarrow> string list \<Rightarrow> string" where
  "joinWith sep [] = []"
| "joinWith sep [x] = x"
| "joinWith sep (x # y # ys) = x @ sep @ joinWith sep (y # ys)"

fun toComment :: "string option \<Rightarrow> string" where
  "toComment None = []"
| "toComment (Some description) =
     ''/**'' @ [newline] @ ''* '' @
     joinWith (newline # ''* '') (splitOn newline (escapeCommentEnd description)) @
     [newline] @ ''*/'' @ [newline]"

subsection \<open>toKebabCase\<close>

text \<open>
  \<open>toLowerCase\<close> on one code unit below 256: the ASCII capitals and the Latin-1
  capitals \<open>0xC0..0xDE\<close> except the multiplication sign \<open>0xD7\<close> move up by 32.
\<close>

definition toLowerCaseChar :: "char \<Rightarrow> char" where
  "toLowerCaseChar c =
     (let n = (of_char c :: nat) in
      if isUpperAZ c \<or> (192 \<le> n \<and> n \<le> 222 \<and> n \<noteq> 215) then char_of (n + 32) else c)"

definition isLowerOrDigit :: "char \<Rightarrow> bool" where
  "isLowerOrDigit c = (isLowerAZ c \<or> isDigit09 c)"

text \<open>
  \<open>.replace(/([a-z0-9])([A-Z])/g, "$1-$2")\<close>: a match is two characters long, so the
  scan resumes behind the capital.
\<close>

fun hyphenateLowerUpper :: "string \<Rightarrow> string" where
  "hyphenateLowerUpper (a # b # rest) =
     (if isLowerOrDigit a \<and> isUpperAZ b then a # CHR ''-'' # b # hyphenateLowerUpper rest
      else a # hyphenateLowerUpper (b # rest))"
| "hyphenateLowerUpper s = s"

text \<open>
  \<open>.replace(/([A-Z]+)([A-Z][a-z])/g, "$1-$2")\<close>. At a capital the greedy \<open>[A-Z]+\<close>
  takes the whole run of capitals and backtracks; the rest of the pattern needs a
  capital followed by a lower-case letter, which only the last capital of the run can be.
  So there is a match at a position exactly when the run of capitals starting there has
  at least two letters and is followed by a lower-case letter; group 1 is the run
  without its last capital. Without a match the character is copied and the scan moves
  on by one.
\<close>

function hyphenateAcronym :: "string \<Rightarrow> string" where
  "hyphenateAcronym [] = []"
| "hyphenateAcronym (c # cs) =
     (let run = takeWhile isUpperAZ (c # cs); after = dropWhile isUpperAZ (c # cs) in
      if 2 \<le> length run \<and> after \<noteq> [] \<and> isLowerAZ (hd after)
      then butlast run @ [CHR ''-'', last run, hd after] @ hyphenateAcronym (tl after)
      else c # hyphenateAcronym cs)"
  by pat_completeness auto
termination
proof (relation "measure length")
  show "wf (measure length)" by simp
next
  fix c :: char and cs xa :: string and x :: string
  assume xa: "xa = dropWhile isUpperAZ (c # cs)"
    and m: "2 \<le> length x \<and> xa \<noteq> [] \<and> isLowerAZ (hd xa)"
  have "length xa \<le> length (c # cs)"
    unfolding xa by (rule length_dropWhile_le)
  moreover have "length (tl xa) < length xa"
    using m by (cases xa) simp_all
  ultimately show "(tl xa, c # cs) \<in> measure length" by simp
next
  fix c :: char and cs :: string
  show "(cs, c # cs) \<in> measure length" by simp
qed

text \<open>\<open>.replace(/[^a-z0-9]+/g, "-")\<close>: every maximal run of other characters becomes one hyphen.\<close>

function collapseNonAlnum :: "string \<Rightarrow> string" where
  "collapseNonAlnum [] = []"
| "collapseNonAlnum (c # cs) =
     (if isLowerOrDigit c then c # collapseNonAlnum cs
      else CHR ''-'' # collapseNonAlnum (dropWhile (\<lambda>x. \<not> isLowerOrDigit x) cs))"
  by pat_completeness auto
termination
  by (relation "measure length") (auto simp: less_Suc_eq_le length_dropWhile_le)

text \<open>\<open>.replace(/-+/g, "-")\<close>: every maximal run of hyphens becomes one hyphen.\<close>

function collapseHyphens :: "string \<Rightarrow> string" where
  "collapseHyphens [] = []"
| "collapseHyphens (c # cs) =
     (if c = CHR ''-'' then CHR ''-'' # collapseHyphens (dropWhile (\<lambda>x. x = CHR ''-'') cs)
      else c # collapseHyphens cs)"
  by pat_completeness auto
termination
  by (relation "measure length") (auto simp: less_Suc_eq_le length_dropWhile_le)

text \<open>
  \<open>.replace(/^-|-$/g, "")\<close>: a hyphen at the start is removed; the scan resumes behind
  it, and a hyphen at the end of what is left is removed too.
\<close>

definition trimHyphens :: "string \<Rightarrow> string" where
  "trimHyphens s =
     (let s1 = (case s of [] \<Rightarrow> [] | c # cs \<Rightarrow> if c = CHR ''-'' then cs else s) in
      if s1 \<noteq> [] \<and> last s1 = CHR ''-'' then butlast s1 else s1)"

definition toKebabCase :: "string \<Rightarrow> string" where
  "toKebabCase self =
     (if length self = 0 then []
      else trimHyphens (collapseHyphens (collapseNonAlnum (map toLowerCaseChar
             (hyphenateAcronym (hyphenateLowerUpper self))))))"

section \<open>Notions used to state the properties\<close>

text \<open>
  The identifier pattern as the specification words it: the literal key \<open>id\<close>, a key
  ending in \<open>Id\<close>, a key ending in \<open>_id\<close>, the literal key \<open>uuid\<close>, a key ending in
  \<open>Uuid\<close>, a key ending in \<open>_uuid\<close>.
\<close>

definition spec_identifierShaped :: "string \<Rightarrow> bool" where
  "spec_identifierShaped key =
     (key = ''id'' \<or> suffix ''Id'' key \<or> suffix ''_id'' key \<or>
      key = ''uuid'' \<or> suffix ''Uuid'' key \<or> suffix ''_uuid'' key)"

text \<open>\<open>adjacent a b s\<close>: the character \<open>a\<close> is directly followed by \<open>b\<close> somewhere in \<open>s\<close>.\<close>

fun adjacent :: "char \<Rightarrow> char \<Rightarrow> string \<Rightarrow> bool" where
  "adjacent a b (x # y # r) = ((x = a \<and> y = b) \<or> adjacent a b (y # r))"
| "adjacent a b s = False"

text \<open>The alphabet of a kebab-case string.\<close>

definition kebabChar :: "char \<Rightarrow> bool" where
  "kebabChar c = (isLowerAZ c \<or> isDigit09 c \<or> c = CHR ''-'')"

section \<open>JSON documents and the JavaScript operations on them\<close>

text \<open>
  The OpenAPI document is a JSON value. \<open>JObj\<close> lists the own properties of an object in
  enumeration order, with distinct keys. \<open>undefined\<close> is \<open>None\<close> of the option type.
  Numbers play no role below.
\<close>

datatype json =
  JNull | JBool bool | JNum int | JStr string | JArr "json list" | JObj "(string \<times> json) list"

text \<open>
  \<open>TypeError\<close> is the exception JavaScript throws on \<open>k in v\<close> and \<open>v[k]\<close> for a \<open>v\<close>
  that admits neither. \<open>OutOfFuel\<close> stands for a \<open>while\<close> loop that has not ended within
  the given number of rounds. \<open>Unmodelled\<close> marks the inputs on which the model does
  not follow JavaScript: a reference that reads an inherited or built-in property (see
  \<open>readPart\<close>) and a few shapes that are ill-typed for a schema (see \<open>mergeMember\<close>).
  A result \<open>Inl Unmodelled\<close> says nothing about what the code does.
\<close>

datatype failure = TypeError | OutOfFuel | Unmodelled

fun truthy :: "json option \<Rightarrow> bool" where
  "truthy None = False"
| "truthy (Some JNull) = False"
| "truthy (Some (JBool b)) = b"
| "truthy (Some (JNum n)) = (n \<noteq> 0)"
| "truthy (Some (JStr s)) = (s \<noteq> [])"
| "truthy (Some (JArr xs)) = True"
| "truthy (Some (JObj kvs)) = True"

text \<open>A canonical array index: decimal digits without a leading zero.\<close>

definition arrayIndex :: "string \<Rightarrow> nat option" where
  "arrayIndex k =
     (if k \<noteq> [] \<and> list_all isDigit09 k \<and> (hd k \<noteq> CHR ''0'' \<or> length k = 1)
      then Some (foldl (\<lambda>n c. 10 * n + ((of_char c :: nat) - 48)) 0 k)
      else None)"

text \<open>
  \<open>v[k]\<close> for a \<open>v\<close> that is neither \<open>null\<close> nor \<open>undefined\<close>, and for the keys the
  code writes out: \<open>$ref\<close>, \<open>allOf\<close>, \<open>properties\<close>, \<open>required\<close>, \<open>content\<close>,
  \<open>application/json\<close>, \<open>text/event-stream\<close>, \<open>schema\<close>. None of them is an inherited or
  built-in property of an object, an array, a string, a number or a boolean, so the
  result is the own property or \<open>undefined\<close>.
\<close>

fun getProp :: "json \<Rightarrow> string \<Rightarrow> json option" where
  "getProp (JObj kvs) k = map_of kvs k"
| "getProp (JArr xs) k =
     (case arrayIndex k of
        None \<Rightarrow> None
      | Some i \<Rightarrow> if i < length xs then Some (xs ! i) else None)"
| "getProp v k = None"

text \<open>\<open>v?.[k]\<close>: \<open>undefined\<close> when \<open>v\<close> is \<open>null\<close> or \<open>undefined\<close>.\<close>

fun optGet :: "json option \<Rightarrow> string \<Rightarrow> json option" where
  "optGet None k = None"
| "optGet (Some JNull) k = None"
| "optGet (Some v) k = getProp v k"

text \<open>\<open>v[k]\<close>: throws when \<open>v\<close> is \<open>null\<close> or \<open>undefined\<close>.\<close>

fun getMember :: "json option \<Rightarrow> string \<Rightarrow> failure + json option" where
  "getMember None k = Inl TypeError"
| "getMember (Some JNull) k = Inl TypeError"
| "getMember (Some v) k = Inr (getProp v k)"

text \<open>\<open>k in v\<close>: throws unless \<open>v\<close> is an object or an array.\<close>

fun hasProp :: "string \<Rightarrow> json option \<Rightarrow> failure + bool" where
  "hasProp k (Some (JObj kvs)) = Inr (map_of kvs k \<noteq> None)"
| "hasProp k (Some (JArr xs)) = Inr (getProp (JArr xs) k \<noteq> None)"
| "hasProp k v = Inl TypeError"

text \<open>\<open>Map.prototype.set\<close> and \<open>Set.prototype.add\<close>, both keeping insertion order.\<close>

fun mapSet :: "'k \<Rightarrow> 'v \<Rightarrow> ('k \<times> 'v) list \<Rightarrow> ('k \<times> 'v) list" where
  "mapSet k v [] = [(k, v)]"
| "mapSet k v (p # ps) = (if fst p = k then (k, v) # ps else p # mapSet k v ps)"

definition setAdd :: "'a \<Rightarrow> 'a list \<Rightarrow> 'a list" where
  "setAdd x xs = (if x \<in> set xs then xs else xs @ [x])"

text \<open>\<open>Object.assign(target, source)\<close> for two plain objects.\<close>

definition objectAssign :: "(string \<times> json) list \<Rightarrow> (string \<times> json) list \<Rightarrow> (string \<times> json) list" where
  "objectAssign target source = foldl (\<lambda>t (k, v). mapSet k v t) target source"

section \<open>OpenApi.ts: walking the responses of an operation\<close>

text \<open>
  \<open>current[part]\<close> in \<open>resolveRef\<close>, where \<open>part\<close> is any string. On \<open>null\<close> and
  \<open>undefined\<close> it throws. On an object it is the own property; a missing name is
  \<open>undefined\<close> unless \<open>Object.prototype\<close> has it, and then the value is no JSON value:
  \<open>Unmodelled\<close>. On an array a canonical index gives the element or \<open>undefined\<close>; any
  other name (\<open>length\<close>, a method, a missing name) is \<open>Unmodelled\<close>, and so is every read
  from a string, a number or a boolean.
\<close>

definition objectPrototypeNames :: "string list" where
  "objectPrototypeNames =
     [''constructor'', ''__proto__'', ''hasOwnProperty'', ''isPrototypeOf'',
      ''propertyIsEnumerable'', ''toLocaleString'', ''toString'', ''valueOf'',
      ''__defineGetter__'', ''__defineSetter__'', ''__lookupGetter__'', ''__lookupSetter__'']"

fun readPart :: "json option \<Rightarrow> string \<Rightarrow> failure + json option" where
  "readPart None part = Inl TypeError"
| "readPart (Some JNull) part = Inl TypeError"
| "readPart (Some (JObj kvs)) part =
     (case map_of kvs part of
        Some v \<Rightarrow> Inr (Some v)
      | None \<Rightarrow> if part \<in> set objectPrototypeNames then Inl Unmodelled else Inr None)"
| "readPart (Some (JArr xs)) part =
     (case arrayIndex part of
        Some i \<Rightarrow> Inr (if i < length xs then Some (xs ! i) else None)
      | None \<Rightarrow> Inl Unmodelled)"
| "readPart (Some v) part = Inl Unmodelled"

text \<open>
  \<open>resolveRef\<close>: the reference is split at \<open>/\<close>, the first part is dropped, and the
  others are followed from the root of the document. The argument is \<open>x.$ref as string\<close>;
  \<open>split\<close> on anything but a string throws.
\<close>

fun walkParts :: "json option \<Rightarrow> string list \<Rightarrow> failure + json option" where
  "walkParts current [] = Inr current"
| "walkParts current (part # parts) =
     (case readPart current part of
        Inl e \<Rightarrow> Inl e
      | Inr next \<Rightarrow> walkParts next parts)"

fun resolveRef :: "json \<Rightarrow> json option \<Rightarrow> failure + json option" where
  "resolveRef spec (Some (JStr ref)) = walkParts (Some spec) (tl (splitOn (CHR ''/'') ref))"
| "resolveRef spec r = Inl TypeError"

text \<open>
  \<open>while ("$ref" in response) { response = resolveRef(response.$ref) }\<close>, with fuel:
  a reference may lead back to itself.
\<close>

fun derefResponse :: "nat \<Rightarrow> json \<Rightarrow> json option \<Rightarrow> failure + json option" where
  "derefResponse 0 spec response = Inl OutOfFuel"
| "derefResponse (Suc fuel) spec response =
     (case hasProp ''$ref'' response of
        Inl e \<Rightarrow> Inl e
      | Inr False \<Rightarrow> Inr response
      | Inr True \<Rightarrow>
          (case resolveRef spec (optGet response ''$ref'') of
             Inl e \<Rightarrow> Inl e
           | Inr next \<Rightarrow> derefResponse fuel spec next))"

text \<open>
  One round of the loop over \<open>errorSchema.allOf\<close>. \<open>merged\<close> is the accumulator, a plain
  object that starts as \<open>{ properties: {}, required: [] }\<close>.
  \<^item> \<open>Object.assign(merged, resolved)\<close> ignores \<open>undefined\<close>, \<open>null\<close>, booleans and numbers.
  \<^item> \<open>resolved.properties\<close> throws on \<open>undefined\<close> and \<open>null\<close>.
  \<^item> \<open>Object.assign(merged.properties, resolved.properties ?? {})\<close> throws when
    \<open>merged.properties\<close>, by now possibly the member's own, is \<open>null\<close>.
  \<^item> \<open>merged.required.concat(resolved.required ?? [])\<close> appends an array element-wise
    and anything else as one element; it throws when \<open>merged.required\<close> has no \<open>concat\<close>.
  Where a member or its \<open>properties\<close> is a string or an array in the place of an
  object (JavaScript would copy indexed properties), where the accumulated
  \<open>properties\<close> is a primitive or an array, or where the accumulated \<open>required\<close> is a
  string, the result is \<open>Unmodelled\<close>. The second \<open>Object.assign\<close> writes
  into the object \<open>merged.properties\<close> refers to, which can be an object of the document;
  the model keeps the document unchanged and writes into the accumulator's copy.
\<close>

definition mergeMember ::
  "json \<Rightarrow> (string \<times> json) list \<Rightarrow> json \<Rightarrow> failure + (string \<times> json) list" where
  "mergeMember spec merged member =
     (case hasProp ''$ref'' (Some member) of
        Inl e \<Rightarrow> Inl e
      | Inr isRef \<Rightarrow>
     (case (if isRef then resolveRef spec (getProp member ''$ref'') else Inr (Some member)) of
        Inl e \<Rightarrow> Inl e
      | Inr resolved \<Rightarrow>
     (case (case resolved of
              Some (JObj kvs) \<Rightarrow> Inr (objectAssign merged kvs)
            | Some (JStr s) \<Rightarrow> Inl Unmodelled
            | Some (JArr xs) \<Rightarrow> Inl Unmodelled
            | _ \<Rightarrow> Inr merged) of
        Inl e \<Rightarrow> Inl e
      | Inr merged1 \<Rightarrow>
     (case getMember resolved ''properties'' of
        Inl e \<Rightarrow> Inl e
      | Inr props \<Rightarrow>
     (case (case map_of merged1 ''properties'' of
              Some (JObj target) \<Rightarrow>
                (case props of
                   Some (JObj source) \<Rightarrow> Inr (JObj (objectAssign target source))
                 | Some (JStr s) \<Rightarrow> Inl Unmodelled
                 | Some (JArr xs) \<Rightarrow> Inl Unmodelled
                 | _ \<Rightarrow> Inr (JObj target))
            | Some JNull \<Rightarrow> Inl TypeError
            | None \<Rightarrow> Inl TypeError
            | _ \<Rightarrow> Inl Unmodelled) of
        Inl e \<Rightarrow> Inl e
      | Inr properties1 \<Rightarrow>
     (let merged2 = mapSet ''properties'' properties1 merged1 in
      case map_of merged2 ''required'' of
        Some (JArr required) \<Rightarrow>
          (case getProp (JObj (case resolved of Some (JObj kvs) \<Rightarrow> kvs | _ \<Rightarrow> [])) ''required'' of
             None \<Rightarrow> Inr (mapSet ''required'' (JArr required) merged2)
           | Some JNull \<Rightarrow> Inr (mapSet ''required'' (JArr required) merged2)
           | Some (JArr more) \<Rightarrow> Inr (mapSet ''required'' (JArr (required @ more)) merged2)
           | Some v \<Rightarrow> Inr (mapSet ''required'' (JArr (required @ [v])) merged2))
      | Some (JStr s) \<Rightarrow> Inl Unmodelled
      | _ \<Rightarrow> Inl TypeError))))))"

fun mergeAllOf ::
  "json \<Rightarrow> (string \<times> json) list \<Rightarrow> json list \<Rightarrow> failure + (string \<times> json) list" where
  "mergeAllOf spec merged [] = Inr merged"
| "mergeAllOf spec merged (member # members) =
     (case mergeMember spec merged member of
        Inl e \<Rightarrow> Inl e
      | Inr merged' \<Rightarrow> mergeAllOf spec merged' members)"

text \<open>
  Lines 239 to 255 of \<open>generate\<close>: does the schema of an error response count as an
  object, so that its name goes into \<open>objectErrorSchemas\<close>? One level of \<open>$ref\<close> is
  resolved, an \<open>allOf\<close> array is merged, and the outcome is \<open>"properties" in errorSchema\<close>.
\<close>

definition errorSchemaHasProperties :: "json \<Rightarrow> json \<Rightarrow> failure + bool" where
  "errorSchemaHasProperties spec schema =
     (case hasProp ''$ref'' (Some schema) of
        Inl e \<Rightarrow> Inl e
      | Inr isRef \<Rightarrow>
     (case (if isRef then resolveRef spec (getProp schema ''$ref'') else Inr (Some schema)) of
        Inl e \<Rightarrow> Inl e
      | Inr errorSchema \<Rightarrow>
     (case hasProp ''allOf'' errorSchema of
        Inl e \<Rightarrow> Inl e
      | Inr hasAllOf \<Rightarrow>
     (case (case (hasAllOf, optGet errorSchema ''allOf'') of
              (True, Some (JArr members)) \<Rightarrow>
                (case mergeAllOf spec [(''properties'', JObj []), (''required'', JArr [])] members of
                   Inl e \<Rightarrow> Inl e
                 | Inr merged \<Rightarrow> Inr (Some (JObj merged)))
            | _ \<Rightarrow> Inr errorSchema) of
        Inl e \<Rightarrow> Inl e
      | Inr errorSchema' \<Rightarrow> hasProp ''properties'' errorSchema'))))"

text \<open>
  \<open>Number(status[0])\<close>: a digit gives its value, a white-space character gives 0,
  anything else and the empty status give \<open>NaN\<close> (\<open>None\<close>).
\<close>

definition isJsWhitespace :: "char \<Rightarrow> bool" where
  "isJsWhitespace c = ((of_char c :: nat) \<in> {9, 10, 11, 12, 13, 32, 160})"

definition statusMajorNumber :: "string \<Rightarrow> nat option" where
  "statusMajorNumber status =
     (case status of
        [] \<Rightarrow> None
      | c # _ \<Rightarrow>
          if isDigit09 c then Some ((of_char c :: nat) - 48)
          else if isJsWhitespace c then Some 0
          else None)"

datatype http_method = Get | Put | Post | Delete | Options | Head | Patch | Trace

fun methodName :: "http_method \<Rightarrow> string" where
  "methodName Get = ''get''"
| "methodName Put = ''put''"
| "methodName Post = ''post''"
| "methodName Delete = ''delete''"
| "methodName Options = ''options''"
| "methodName Head = ''head''"
| "methodName Patch = ''patch''"
| "methodName Trace = ''trace''"

record parsed_operation =
  id_op :: string
  method_op :: http_method
  description_op :: "string option"
  tags :: "string list"
  params :: "string option"
  paramsOptional :: bool
  urlParams :: "string list"
  headers :: "string list"
  payload :: "string option"
  payloadFormData :: bool
  pathIds :: "string list"
  pathTemplate :: string
  successSchemas :: "(string \<times> string) list"
  errorSchemas :: "(string \<times> string) list"
  objectErrorSchemas :: "string list"
  voidSchemas :: "string list"
  schemaNames :: "string list"
  streamSchema :: "string option"

text \<open>
  \<open>JsonSchemaGen.ts\<close> is not among the sources. Its three operations that \<open>generate\<close>
  calls are parameters: \<open>addSchema\<close> registers a schema under a requested name and
  returns the name to use, \<open>markAsError\<close> flags a registered name, \<open>generateSchemas\<close>
  is \<open>gen.generate("Schema", names)\<close>. The state of the generator is \<open>'g\<close>.
\<close>

record 'g generator =
  addSchema :: "'g \<Rightarrow> string \<Rightarrow> json \<Rightarrow> bool \<Rightarrow> string \<times> 'g"
  markAsError :: "'g \<Rightarrow> string \<Rightarrow> 'g"
  generateSchemas :: "'g \<Rightarrow> string list \<Rightarrow> string"

text \<open>
  The state of the walk: the operation under construction, the local variable
  \<open>defaultSchema\<close> and the generator.
\<close>

record 'g walk_state =
  oper :: parsed_operation
  defaultSchema :: "string option"
  gen :: 'g

text \<open>A name used as a condition: \<open>undefined\<close> and the empty string are falsy.\<close>

fun truthyName :: "string option \<Rightarrow> bool" where
  "truthyName None = False"
| "truthyName (Some s) = (s \<noteq> [])"

text \<open>
  The callback of \<open>forEach\<close> leaves early with \<open>return\<close> in two places; \<open>Return\<close>
  carries the state at such an exit, \<open>Continue\<close> the state that goes on.
\<close>

datatype 'a flow = Continue 'a | Return 'a

text \<open>The branch for a response with an \<open>application/json\<close> schema (lines 220 to 256).\<close>

definition jsonResponse ::
  "'g generator \<Rightarrow> json \<Rightarrow> string \<Rightarrow> string \<Rightarrow> json \<Rightarrow> 'g walk_state
   \<Rightarrow> failure + 'g walk_state flow" where
  "jsonResponse G spec schemaId status schema st =
     (let (schemaName, g1) = addSchema G (gen st) (schemaId @ status) schema True;
          st1 = st\<lparr>gen := g1\<rparr>
      in if status = ''default'' then Inr (Return (st1\<lparr>defaultSchema := Some schemaName\<rparr>))
         else
           (let statusLower = map toLowerCaseChar status in
            case statusMajorNumber status of
              None \<Rightarrow> Inr (Return st1)
            | Some statusMajor \<Rightarrow>
                if statusMajor < 4
                then Inr (Continue (st1\<lparr>oper := (oper st1)\<lparr>successSchemas :=
                        mapSet statusLower schemaName (successSchemas (oper st1))\<rparr>\<rparr>))
                else
                  (let st2 = st1\<lparr>gen := markAsError G g1 schemaName,
                                 oper := (oper st1)\<lparr>errorSchemas :=
                                   mapSet statusLower schemaName (errorSchemas (oper st1))\<rparr>\<rparr>
                   in case errorSchemaHasProperties spec schema of
                        Inl e \<Rightarrow> Inl e
                      | Inr True \<Rightarrow>
                          Inr (Continue (st2\<lparr>oper := (oper st2)\<lparr>objectErrorSchemas :=
                                 setAdd schemaName (objectErrorSchemas (oper st2))\<rparr>\<rparr>))
                      | Inr False \<Rightarrow> Inr (Continue st2))))"

text \<open>The \<open>text/event-stream\<close> part (lines 258 to 266).\<close>

definition streamResponse ::
  "'g generator \<Rightarrow> string \<Rightarrow> json option \<Rightarrow> 'g walk_state \<Rightarrow> 'g walk_state" where
  "streamResponse G schemaId response st =
     (let eventSchema = optGet (optGet (optGet response ''content'') ''text/event-stream'') ''schema'' in
      case eventSchema of
        None \<Rightarrow> st
      | Some schema \<Rightarrow>
          if \<not> truthyName (streamSchema (oper st)) \<and> truthy eventSchema
          then (let (name, g1) = addSchema G (gen st) (schemaId @ ''StreamEvent'') schema True
                in st\<lparr>gen := g1, oper := (oper st)\<lparr>streamSchema := Some name\<rparr>\<rparr>)
          else st)"

text \<open>The part for a response without content (lines 267 to 272).\<close>

definition voidResponse :: "string \<Rightarrow> json option \<Rightarrow> 'g walk_state \<Rightarrow> 'g walk_state" where
  "voidResponse status response st =
     (if \<not> truthy (optGet response ''content'')
      then (case statusMajorNumber status of
              None \<Rightarrow> st
            | Some statusMajor \<Rightarrow>
                if statusMajor < 4
                then st\<lparr>oper := (oper st)\<lparr>voidSchemas :=
                       setAdd (map toLowerCaseChar status) (voidSchemas (oper st))\<rparr>\<rparr>
                else st)
      else st)"

text \<open>The callback for one entry \<open>[status, response]\<close> of \<open>operation.responses\<close>.\<close>

definition responseStep ::
  "'g generator \<Rightarrow> nat \<Rightarrow> json \<Rightarrow> string \<Rightarrow> string \<times> json \<Rightarrow> 'g walk_state
   \<Rightarrow> failure + 'g walk_state" where
  "responseStep G fuel spec schemaId entry st =
     (case derefResponse fuel spec (Some (snd entry)) of
        Inl e \<Rightarrow> Inl e
      | Inr response \<Rightarrow>
          (let jsonSchema = optGet (optGet (optGet response ''content'') ''application/json'') ''schema'' in
           case (case jsonSchema of
                   None \<Rightarrow> Inr (Continue st)
                 | Some schema \<Rightarrow>
                     if truthy jsonSchema then jsonResponse G spec schemaId (fst entry) schema st
                     else Inr (Continue st)) of
             Inl e \<Rightarrow> Inl e
           | Inr (Return st1) \<Rightarrow> Inr st1
           | Inr (Continue st1) \<Rightarrow>
               Inr (voidResponse (fst entry) response (streamResponse G schemaId response st1))))"

text \<open>
  \<open>Object.entries(operation.responses ?? {}).forEach(...)\<close>; the entries are given in
  the order \<open>Object.entries\<close> lists them.
\<close>

fun walkResponses ::
  "'g generator \<Rightarrow> nat \<Rightarrow> json \<Rightarrow> string \<Rightarrow> (string \<times> json) list \<Rightarrow> 'g walk_state
   \<Rightarrow> failure + 'g walk_state" where
  "walkResponses G fuel spec schemaId [] st = Inr st"
| "walkResponses G fuel spec schemaId (entry # entries) st =
     (case responseStep G fuel spec schemaId entry st of
        Inl e \<Rightarrow> Inl e
      | Inr st' \<Rightarrow> walkResponses G fuel spec schemaId entries st')"

text \<open>Lines 275 to 283: the default schema as the success schema, and \<open>schemaNames\<close>.\<close>

definition addName :: "string option \<Rightarrow> string list \<Rightarrow> string list" where
  "addName name names = (case name of None \<Rightarrow> names | Some n \<Rightarrow> if n \<noteq> [] then setAdd n names else names)"

definition finishOperation :: "'g walk_state \<Rightarrow> parsed_operation" where
  "finishOperation st =
     (let op0 = oper st;
          op1 = (case defaultSchema st of
                   None \<Rightarrow> op0
                 | Some d \<Rightarrow>
                     if length (successSchemas op0) = 0 \<and> d \<noteq> []
                     then op0\<lparr>successSchemas := mapSet ''2xx'' d (successSchemas op0)\<rparr>
                     else op0);
          n1 = addName (params op1) (schemaNames op1);
          n2 = addName (payload op1) n1;
          n3 = foldl (\<lambda>ns n. setAdd n ns) n2 (map snd (successSchemas op1));
          n4 = foldl (\<lambda>ns n. setAdd n ns) n3 (map snd (errorSchemas op1));
          n5 = addName (defaultSchema st) n4;
          n6 = addName (streamSchema op1) n5
      in op1\<lparr>schemaNames := n6\<rparr>)"

text \<open>Lines 117 to 119: the id of the operation.\<close>

definition operationIdOf :: "http_method \<Rightarrow> string \<Rightarrow> string option \<Rightarrow> string" where
  "operationIdOf method path operationId =
     (case operationId of
        None \<Rightarrow> map toUpperCaseChar (methodName method) @ path
      | Some oid \<Rightarrow>
          if oid \<noteq> [] then camelize oid
          else map toUpperCaseChar (methodName method) @ path)"

section \<open>OpenApi.ts: the status handlers of operationToImpl\<close>

text \<open>
  Lines 523 to 543 build the list \<open>decodes\<close> of strings \<open>"key": handler\<close>. Here an entry
  is the pair of its key and its handler, and \<open>decodes\<close> renders the pairs.
\<close>

definition successHandlers :: "parsed_operation \<Rightarrow> (string \<times> string) list" where
  "successHandlers operation =
     (let singleSuccessCode = (length (successSchemas operation) = 1) in
      map (\<lambda>(status, schema).
             (if singleSuccessCode \<and> prefix ''2'' status then ''2xx'' else status,
              ''(response) => HttpClientResponse.schemaBodyJson('' @ schema @ '')(response)''))
        (successSchemas operation))"

definition errorHandlers :: "parsed_operation \<Rightarrow> (string \<times> string) list" where
  "errorHandlers operation =
     map (\<lambda>(status, schema).
            (status,
             if schema \<in> set (objectErrorSchemas operation)
             then ''(response) => HttpClientResponse.schemaBodyJson('' @ schema @
                  ''Body)(response).pipe(Effect.map((body) => new '' @ schema @
                  ''(body)), Effect.flatMap(Effect.fail))''
             else ''(response) => HttpClientResponse.schemaBodyJson('' @ schema @
                  '')(response).pipe(Effect.flatMap(Effect.fail))''))
       (errorSchemas operation)"






section \<open>OpenApi.ts: the partition of the operations into modules\<close>

text \<open>\<open>op.tags[0] ?? "_untagged"\<close>.\<close>

definition primaryTag :: "parsed_operation \<Rightarrow> string" where
  "primaryTag operation = (case tags operation of [] \<Rightarrow> ''_untagged'' | tag # _ \<Rightarrow> tag)"

definition addToGroup ::
  "(string \<times> parsed_operation list) list \<Rightarrow> parsed_operation
   \<Rightarrow> (string \<times> parsed_operation list) list" where
  "addToGroup groups operation =
     (let tag = primaryTag operation in
      case map_of groups tag of
        None \<Rightarrow> mapSet tag [operation] groups
      | Some members \<Rightarrow> mapSet tag (members @ [operation]) groups)"

definition tagGroups :: "parsed_operation list \<Rightarrow> (string \<times> parsed_operation list) list" where
  "tagGroups operations = foldl addToGroup [] operations"

definition namesOfOperations :: "parsed_operation list \<Rightarrow> string list" where
  "namesOfOperations ops = foldl (\<lambda>names name. setAdd name names) [] (concat (map schemaNames ops))"

definition tagSchemaNames ::
  "(string \<times> parsed_operation list) list \<Rightarrow> (string \<times> string list) list" where
  "tagSchemaNames groups =
     foldl (\<lambda>m (tag, ops). mapSet tag (namesOfOperations ops) m) [] groups"

definition allSchemaNames :: "(string \<times> string list) list \<Rightarrow> string list" where
  "allSchemaNames tsn = foldl (\<lambda>names name. setAdd name names) [] (concat (map snd tsn))"

definition commonSchemaNames :: "(string \<times> string list) list \<Rightarrow> string list" where
  "commonSchemaNames tsn =
     foldl (\<lambda>common name.
              if 1 < length (filter (\<lambda>(tag, names). name \<in> set names) tsn)
              then setAdd name common else common)
       [] (allSchemaNames tsn)"

record tag_module =
  source_m :: string
  schemaNames_m :: "string list"
  operations_m :: "parsed_operation list"

text \<open>The service \<open>OpenApiTransformer\<close> and the options of \<open>generate\<close>.\<close>

record transformer =
  imports_t :: string
  toTypes :: "string \<Rightarrow> parsed_operation list \<Rightarrow> string"
  toImplementation :: "string \<Rightarrow> parsed_operation list \<Rightarrow> string"

record generate_options =
  name_o :: string
  ext_o :: "string option"

text \<open>Lines 354 to 361: the body structs a tag module takes from the shared module.\<close>

definition errorBodyNames :: "string list \<Rightarrow> parsed_operation list \<Rightarrow> string list" where
  "errorBodyNames common ops =
     foldl (\<lambda>acc name.
              if name \<in> set common \<and> (name @ ''Body'') \<notin> set acc then acc @ [name @ ''Body'']
              else acc)
       [] (concat (map objectErrorSchemas ops))"

definition tagModule ::
  "'g generator \<Rightarrow> transformer \<Rightarrow> generate_options \<Rightarrow> 'g \<Rightarrow> string list
   \<Rightarrow> (string \<times> string list) list \<Rightarrow> string \<Rightarrow> parsed_operation list \<Rightarrow> tag_module" where
  "tagModule G T options g common tsn tag ops =
     (let schemas = (case map_of tsn tag of None \<Rightarrow> [] | Some names \<Rightarrow> names);
          tagOnlySchemas =
            foldl (\<lambda>s name. if name \<notin> set common then setAdd name s else s) [] schemas;
          tagSchemas = generateSchemas G g tagOnlySchemas;
          commonReexports =
            (if 0 < length common then filter (\<lambda>n. n \<in> set common) schemas else []);
          allReexports = commonReexports @ errorBodyNames common ops;
          commonImportPath = ''./_common'' @ (case ext_o options of None \<Rightarrow> ''.js'' | Some e \<Rightarrow> e);
          commonReexportLine =
            (if 0 < length allReexports
             then ''import { '' @ joinWith '', '' allReexports @ '' } from \"'' @
                  commonImportPath @ ''\"'' @ [newline] @
                  ''export { '' @ joinWith '', '' allReexports @ '' }''
             else []);
          hasStreaming = list_ex (\<lambda>operation. truthyName (streamSchema operation)) ops;
          streamingImports =
            (if hasStreaming
             then ''import * as Sse from \"@effect/experimental/Sse\"'' @ [newline] @
                  ''import * as Stream from \"effect/Stream\"''
             else []);
          parts =
            [imports_t T] @
            (if streamingImports \<noteq> [] then [streamingImports] else []) @
            (if commonReexportLine \<noteq> [] then [commonReexportLine] else []) @
            (if tagSchemas \<noteq> [] then [tagSchemas] else []) @
            [toImplementation T (name_o options) ops, toTypes T (name_o options) ops]
      in \<lparr>source_m = joinWith [newline, newline] (filter (\<lambda>p. p \<noteq> []) parts),
          schemaNames_m = schemas,
          operations_m = ops\<rparr>)"

text \<open>Lines 291 to 387: from the parsed operations to the map of modules.\<close>

definition generateModules ::
  "'g generator \<Rightarrow> transformer \<Rightarrow> generate_options \<Rightarrow> 'g \<Rightarrow> parsed_operation list
   \<Rightarrow> (string \<times> tag_module) list" where
  "generateModules G T options g operations =
     (let groups = tagGroups operations;
          tsn = tagSchemaNames groups;
          common = commonSchemaNames tsn;
          modules0 =
            (if 0 < length common
             then mapSet ''_common''
                    \<lparr>source_m = imports_t T @ [newline, newline] @ generateSchemas G g common,
                     schemaNames_m = common,
                     operations_m = []\<rparr> []
             else [])
      in foldl (\<lambda>modules (tag, ops). mapSet tag (tagModule G T options g common tsn tag ops) modules)
           modules0 groups)"

section \<open>The specification's reading of two claims\<close>

text \<open>
  The resolved schema of the specification, section 4.3: a \<open>$ref\<close> is followed, an
  \<open>allOf\<close> is flattened by merging the resolved members from left to right, any other
  fragment is itself. The resolved schema is an object with explicit properties when it
  has a non-empty \<open>properties\<close> map (section 4.1).
\<close>

fun spec_resolveSchema :: "nat \<Rightarrow> json \<Rightarrow> json \<Rightarrow> (string \<times> json) list option" where
  "spec_resolveSchema 0 spec schema = None"
| "spec_resolveSchema (Suc fuel) spec schema =
     (case schema of
        JObj kvs \<Rightarrow>
          (case map_of kvs ''$ref'' of
             Some r \<Rightarrow>
               (case resolveRef spec (Some r) of
                  Inr (Some target) \<Rightarrow> spec_resolveSchema fuel spec target
                | _ \<Rightarrow> None)
           | None \<Rightarrow>
               (case map_of kvs ''allOf'' of
                  Some (JArr members) \<Rightarrow>
                    foldl (\<lambda>acc member.
                             case (acc, spec_resolveSchema fuel spec member) of
                               (Some a, Some m) \<Rightarrow> Some (objectAssign a m)
                             | _ \<Rightarrow> None)
                      (Some []) members
                | _ \<Rightarrow> Some kvs))
      | _ \<Rightarrow> None)"

definition spec_objectWithExplicitProperties :: "nat \<Rightarrow> json \<Rightarrow> json \<Rightarrow> bool" where
  "spec_objectWithExplicitProperties fuel spec schema =
     (case spec_resolveSchema fuel spec schema of
        None \<Rightarrow> False
      | Some resolved \<Rightarrow>
          (case map_of resolved ''properties'' of
             Some (JObj props) \<Rightarrow> props \<noteq> []
           | _ \<Rightarrow> False))"

text \<open>
  The shared names as the specification words them: a tag group references the names its
  operations use, the body-struct names of its tagged-error schemas, and every name those
  transitively require; a name is shared when two or more tag groups reference it.
  \<open>requires\<close> lists, for a declaration name, the names its declaration depends on.
\<close>

fun requiredClosure :: "nat \<Rightarrow> (string \<times> string list) list \<Rightarrow> string list \<Rightarrow> string list" where
  "requiredClosure 0 requires names = names"
| "requiredClosure (Suc k) requires names =
     requiredClosure k requires
       (foldl (\<lambda>ns n. setAdd n ns) names
          (concat (map (\<lambda>n. case map_of requires n of None \<Rightarrow> [] | Some ds \<Rightarrow> ds) names)))"

definition spec_referencedNames ::
  "(string \<times> string list) list \<Rightarrow> parsed_operation list \<Rightarrow> string list" where
  "spec_referencedNames requires ops =
     requiredClosure (length requires) requires
       (namesOfOperations ops @ map (\<lambda>n. n @ ''Body'') (concat (map objectErrorSchemas ops)))"

definition spec_commonNames ::
  "(string \<times> string list) list \<Rightarrow> parsed_operation list \<Rightarrow> string list" where
  "spec_commonNames requires operations =
     (let refs = map (\<lambda>(tag, ops). spec_referencedNames requires ops) (tagGroups operations) in
      filter (\<lambda>n. 1 < length (filter (\<lambda>r. n \<in> set r) refs)) (remdups (concat refs)))"

text \<open>
  The kinds of an entry \<open>[status, response]\<close> of \<open>operation.responses\<close>.
  \<open>jsonSchemaOf\<close> is \<open>response.content?.["application/json"]?.schema\<close> of the response
  with its references followed, when that is truthy. An entry is a JSON success status
  when it has such a schema, its status is not \<open>default\<close> and the leading digit of the
  status is below 4; a JSON error status when the digit is 4 or more; the JSON default
  when the status is \<open>default\<close>; and a status without content when \<open>response.content\<close> is
  falsy.
\<close>

definition jsonSchemaOf :: "nat \<Rightarrow> json \<Rightarrow> json \<Rightarrow> json option" where
  "jsonSchemaOf fuel spec response0 =
     (case derefResponse fuel spec (Some response0) of
        Inl e \<Rightarrow> None
      | Inr response \<Rightarrow>
          (let schema = optGet (optGet (optGet response ''content'') ''application/json'') ''schema''
           in if truthy schema then schema else None))"

definition isJsonSuccess :: "nat \<Rightarrow> json \<Rightarrow> string \<times> json \<Rightarrow> bool" where
  "isJsonSuccess fuel spec entry =
     (jsonSchemaOf fuel spec (snd entry) \<noteq> None \<and> fst entry \<noteq> ''default'' \<and>
      (case statusMajorNumber (fst entry) of None \<Rightarrow> False | Some n \<Rightarrow> n < 4))"

definition isJsonError :: "nat \<Rightarrow> json \<Rightarrow> string \<times> json \<Rightarrow> bool" where
  "isJsonError fuel spec entry =
     (jsonSchemaOf fuel spec (snd entry) \<noteq> None \<and> fst entry \<noteq> ''default'' \<and>
      (case statusMajorNumber (fst entry) of None \<Rightarrow> False | Some n \<Rightarrow> 4 \<le> n))"

definition isJsonDefault :: "nat \<Rightarrow> json \<Rightarrow> string \<times> json \<Rightarrow> bool" where
  "isJsonDefault fuel spec entry =
     (jsonSchemaOf fuel spec (snd entry) \<noteq> None \<and> fst entry = ''default'')"

definition isVoidStatus :: "nat \<Rightarrow> json \<Rightarrow> string \<times> json \<Rightarrow> bool" where
  "isVoidStatus fuel spec entry =
     ((case derefResponse fuel spec (Some (snd entry)) of
         Inl e \<Rightarrow> False
       | Inr response \<Rightarrow> \<not> truthy (optGet response ''content'')) \<and>
      (case statusMajorNumber (fst entry) of None \<Rightarrow> False | Some n \<Rightarrow> n < 4))"

definition lowerStatus :: "string \<times> json \<Rightarrow> string" where
  "lowerStatus entry = map toLowerCaseChar (fst entry)"

text \<open>The keys of a \<open>Map\<close> or the members of a \<open>Set\<close> after adding the given ones in order.\<close>

definition addedInOrder :: "string list \<Rightarrow> string list" where
  "addedInOrder keys = foldl (\<lambda>ks k. setAdd k ks) [] keys"

text \<open>The set of a name that is used when it is truthy.\<close>

definition nameSet :: "string option \<Rightarrow> string set" where
  "nameSet name = (case name of None \<Rightarrow> {} | Some n \<Rightarrow> if n \<noteq> [] then {n} else {})"

text \<open>
  The names an operation registers directly: its parameter, payload, success, error,
  default and stream schema names, read off the state in which the walk of the responses
  ends.
\<close>

definition spec_registeredNames :: "'g walk_state \<Rightarrow> string set" where
  "spec_registeredNames st =
     nameSet (params (oper st)) \<union> nameSet (payload (oper st)) \<union>
     snd ` set (successSchemas (oper st)) \<union> snd ` set (errorSchemas (oper st)) \<union>
     nameSet (defaultSchema st) \<union> nameSet (streamSchema (oper st))"

text \<open>The line with which a tag module takes names from the shared module.\<close>

definition spec_reexportLine :: "string \<Rightarrow> string list \<Rightarrow> string" where
  "spec_reexportLine ext names =
     ''import { '' @ joinWith '', '' names @ '' } from \"./_common'' @ ext @ ''\"'' @ [newline] @
     ''export { '' @ joinWith '', '' names @ '' }''"

text \<open>The upper-case names of the HTTP methods.\<close>

definition spec_methodUpper :: "http_method \<Rightarrow> string" where
  "spec_methodUpper m =
     (case m of Get \<Rightarrow> ''GET'' | Put \<Rightarrow> ''PUT'' | Post \<Rightarrow> ''POST'' | Delete \<Rightarrow> ''DELETE''
      | Options \<Rightarrow> ''OPTIONS'' | Head \<Rightarrow> ''HEAD'' | Patch \<Rightarrow> ''PATCH'' | Trace \<Rightarrow> ''TRACE'')"

section \<open>Concrete inputs\<close>

text \<open>
  A generator that returns the requested name and records its calls, a transformer
  with empty texts, and an operation with nothing registered yet.
\<close>

definition recordingGenerator :: "(string list) generator" where
  "recordingGenerator =
     \<lparr>addSchema = (\<lambda>g name schema asStruct. (name, g @ [''addSchema '' @ name])),
      markAsError = (\<lambda>g name. g @ [''markAsError '' @ name]),
      generateSchemas = (\<lambda>g names. joinWith [newline] names)\<rparr>"

definition plainTransformer :: transformer where
  "plainTransformer =
     \<lparr>imports_t = ''import * as Schema from \"effect/Schema\"'',
      toTypes = (\<lambda>name ops. ''export interface '' @ name),
      toImplementation = (\<lambda>name ops. ''export const make'')\<rparr>"

definition clientOptions :: generate_options where
  "clientOptions = \<lparr>name_o = ''Client'', ext_o = None\<rparr>"

definition newOperation :: "string \<Rightarrow> http_method \<Rightarrow> string list \<Rightarrow> parsed_operation" where
  "newOperation i m ts =
     \<lparr>id_op = i, method_op = m, description_op = None, tags = ts,
      params = None, paramsOptional = True, urlParams = [], headers = [], payload = None,
      payloadFormData = False, pathIds = [], pathTemplate = [],
      successSchemas = [], errorSchemas = [], objectErrorSchemas = [], voidSchemas = [],
      schemaNames = [], streamSchema = None\<rparr>"

definition startState :: "string \<Rightarrow> (string list) walk_state" where
  "startState i = \<lparr>oper = newOperation i Get [''_untagged''], defaultSchema = None, gen = []\<rparr>"

definition jsonBody :: "json \<Rightarrow> json" where
  "jsonBody schema =
     JObj [(''description'', JStr ''a response''),
           (''content'', JObj [(''application/json'', JObj [(''schema'', schema)])])]"


text \<open>
  Two operations under different tags that both use the schema \<open>Error\<close>, as a tagged
  error; a second operation under the tag \<open>pets\<close>; and two operations under different
  tags with no name in common, whose schemas both depend on \<open>Pet\<close>.
\<close>

definition petsOperation :: parsed_operation where
  "petsOperation =
     (newOperation ''listPets'' Get [''pets''])
       \<lparr>errorSchemas := [(''400'', ''Error'')], objectErrorSchemas := [''Error''],
        schemaNames := [''ListPets200'', ''Error'']\<rparr>"

definition usersOperation :: parsed_operation where
  "usersOperation =
     (newOperation ''listUsers'' Get [''users''])
       \<lparr>errorSchemas := [(''400'', ''Error'')], objectErrorSchemas := [''Error''],
        schemaNames := [''ListUsers200'', ''Error'']\<rparr>"

definition petsCreateOperation :: parsed_operation where
  "petsCreateOperation =
     (newOperation ''createPet'' Post [''pets'', ''admin''])
       \<lparr>errorSchemas := [(''400'', ''Error'')], objectErrorSchemas := [''Error''],
        schemaNames := [''CreatePetRequest'', ''Error'']\<rparr>"

definition petsListOnly :: parsed_operation where
  "petsListOnly = (newOperation ''listPets'' Get [''pets''])\<lparr>schemaNames := [''ListPets200'']\<rparr>"

definition usersListOnly :: parsed_operation where
  "usersListOnly = (newOperation ''listUsers'' Get [''users''])\<lparr>schemaNames := [''ListUsers200'']\<rparr>"

definition petRequirements :: "(string \<times> string list) list" where
  "petRequirements = [(''ListPets200'', [''Pet'']), (''ListUsers200'', [''Pet''])]"

text \<open>An error response whose schema is an \<open>allOf\<close> with a single string member.\<close>

definition allOfStringSchema :: json where
  "allOfStringSchema = JObj [(''allOf'', JArr [JObj [(''type'', JStr ''string'')]])]"



text \<open>
  An operation whose only tag is \<open>_common\<close>; an object schema for an error body; the
  responses \<open>4XX\<close> with that schema and \<open>4xx\<close> without content.
\<close>

definition commonTagOperation :: parsed_operation where
  "commonTagOperation =
     (newOperation ''listThings'' Get [''_common''])\<lparr>schemaNames := [''Thing'', ''Error'']\<rparr>"

text \<open>
  The states in which the walks of two operations under different tags end, both with
  the tagged error \<open>Error\<close>; and an operation under the tag \<open>users\<close> next to the one
  whose tag is \<open>_common\<close>.
\<close>

definition petsState :: "(string list) walk_state" where
  "petsState =
     \<lparr>oper = (newOperation ''listPets'' Get [''pets''])
               \<lparr>successSchemas := [(''200'', ''ListPets200'')],
                errorSchemas := [(''400'', ''Error'')], objectErrorSchemas := [''Error'']\<rparr>,
      defaultSchema = None, gen = []\<rparr>"

definition usersState :: "(string list) walk_state" where
  "usersState =
     \<lparr>oper = (newOperation ''listUsers'' Get [''users''])
               \<lparr>successSchemas := [(''200'', ''ListUsers200'')],
                errorSchemas := [(''400'', ''Error'')], objectErrorSchemas := [''Error'']\<rparr>,
      defaultSchema = None, gen = []\<rparr>"

definition messageSchema :: json where
  "messageSchema =
     JObj [(''type'', JStr ''object''),
           (''properties'', JObj [(''message'', JObj [(''type'', JStr ''string'')])])]"


section \<open>Properties of the string utilities\<close>

lemma altEnd_iff_suffix:
  "list_ex (altMatchesAt (Alt False lit True) key) [0 ..< Suc (length key)] \<longleftrightarrow> suffix lit key"
proof
  assume "list_ex (altMatchesAt (Alt False lit True) key) [0 ..< Suc (length key)]"
  then obtain i where i: "take (length lit) (drop i key) = lit" "i + length lit = length key"
    by (auto simp: list_ex_iff)
  from i(2) have "length (drop i key) = length lit" by simp
  with i(1) have "drop i key = lit" by (metis order_refl take_all)
  then have "key = take i key @ lit" by (metis append_take_drop_id)
  then show "suffix lit key" by (metis suffixI)
next
  assume "suffix lit key"
  then obtain zs where k: "key = zs @ lit" by (auto simp: suffix_def)
  then have "altMatchesAt (Alt False lit True) key (length zs)" by simp
  moreover have "length zs \<in> set [0 ..< Suc (length key)]" using k by simp
  ultimately show "list_ex (altMatchesAt (Alt False lit True) key) [0 ..< Suc (length key)]"
    unfolding list_ex_iff by blast
qed

lemma altBoth_iff_eq:
  "list_ex (altMatchesAt (Alt True lit True) key) [0 ..< Suc (length key)] \<longleftrightarrow> key = lit"
  by (auto simp: list_ex_iff)

lemma regexTest_alts:
  "regexTest alts key \<longleftrightarrow>
     list_ex (\<lambda>a. list_ex (altMatchesAt a key) [0 ..< Suc (length key)]) alts"
  unfolding regexTest_def list_ex_iff by blast

lemma isIdField_iff:
  "isIdField key \<longleftrightarrow>
     key = ''id'' \<or> suffix ''Id'' key \<or> suffix ''_id'' key \<or> suffix ''ID'' key \<or>
     key = ''uuid'' \<or> suffix ''Uuid'' key \<or> suffix ''_uuid'' key"
  unfolding isIdField_def regexTest_alts ID_PATTERN_def
  by (simp only: list_ex_Cons_iff list_ex_Nil_iff altEnd_iff_suffix altBoth_iff_eq simp_thms)

text \<open>
  C6. The claim lists six shapes of an identifier-shaped key: the literal \<open>id\<close>, a key
  ending in \<open>Id\<close>, a key ending in \<open>_id\<close>, the literal \<open>uuid\<close>, a key ending in
  \<open>Uuid\<close>, a key ending in \<open>_uuid\<close>, and says that no other key is identifier-shaped.
  The pattern of the code has a seventh alternative, \<open>ID$\<close>: the key \<open>userID\<close> is
  identifier-shaped for \<open>isIdField\<close> and is none of the six shapes.
\<close>

theorem isIdField_userID_counterexample:
  "isIdField ''userID'' \<and> \<not> spec_identifierShaped ''userID''"
  by (simp add: isIdField_iff spec_identifierShaped_def suffix_Cons)

text \<open>
  C6, amended. A key is identifier-shaped exactly when it is the literal \<open>id\<close>, ends in
  \<open>Id\<close>, ends in \<open>_id\<close>, ends in \<open>ID\<close>, is the literal \<open>uuid\<close>, ends in \<open>Uuid\<close> or
  ends in \<open>_uuid\<close>; the comparison is case-sensitive and no other key is
  identifier-shaped.
\<close>

theorem isIdField_characterisation:
  "isIdField key \<longleftrightarrow>
     key = ''id'' \<or> suffix ''Id'' key \<or> suffix ''_id'' key \<or> suffix ''ID'' key \<or>
     key = ''uuid'' \<or> suffix ''Uuid'' key \<or> suffix ''_uuid'' key"
  by (rule isIdField_iff)

lemma capitalize_literals: "capitalize ''id'' = ''Id''" "capitalize ''uuid'' = ''Uuid''"
  by code_simp+

lemma identifier_examples:
  "identifier_str ''userId'' = ''UserId''" "identifier_str ''user_id'' = ''UserId''"
  by code_simp+

text \<open>
  C7. For an identifier-shaped key the brand name is the parent declaration name followed
  by the capitalised key (\<open>Id\<close>, \<open>Uuid\<close>) when the key is literally \<open>id\<close> or \<open>uuid\<close>,
  and the identifier-cased form of the key itself, \<open>capitalize (camelize key)\<close>,
  otherwise; \<open>userId\<close> and \<open>user_id\<close> both give \<open>UserId\<close>.
\<close>

theorem brandNameForId_cases:
  "isIdField key \<Longrightarrow>
   brandNameForId key parentName =
     (if key = ''id'' then parentName @ ''Id''
      else if key = ''uuid'' then parentName @ ''Uuid''
      else capitalize (camelize key))"
  by (auto simp add: brandNameForId_def capitalize_literals identifier_str_def simp del: capitalize.simps)

theorem brandNameForId_cases_witness:
  "isIdField ''userId'' \<and> brandNameForId ''userId'' ''Pet'' = ''UserId'' \<and>
   isIdField ''user_id'' \<and> brandNameForId ''user_id'' ''Pet'' = ''UserId'' \<and>
   isIdField ''id'' \<and> brandNameForId ''id'' ''Pet'' = ''PetId''"
proof -
  have a: "isIdField ''userId''" and b: "isIdField ''user_id''" and c: "isIdField ''id''"
    by (simp_all add: isIdField_iff suffix_Cons)
  show ?thesis
    using a b c brandNameForId_cases[OF a, of "''Pet''"] brandNameForId_cases[OF b, of "''Pet''"]
      brandNameForId_cases[OF c, of "''Pet''"] identifier_examples
    by (simp add: identifier_str_def)
qed

lemma sublist_pair_adjacent: "sublist [a, b] s \<longleftrightarrow> adjacent a b s"
  by (induction a b s rule: adjacent.induct) (auto simp: sublist_Cons_right prefix_Cons)

lemma adjacent_Cons:
  "adjacent a b (x # s) \<longleftrightarrow> (x = a \<and> s \<noteq> [] \<and> hd s = b) \<or> adjacent a b s"
  by (cases s) auto

lemma adjacent_append:
  "adjacent a b (xs @ ys) \<longleftrightarrow>
     adjacent a b xs \<or> adjacent a b ys \<or> (xs \<noteq> [] \<and> last xs = a \<and> ys \<noteq> [] \<and> hd ys = b)"
proof (induction xs)
  case Nil
  then show ?case by simp
next
  case (Cons x xs)
  show ?case
  proof (cases xs)
    case Nil
    then show ?thesis by (auto simp: adjacent_Cons)
  next
    case (Cons z zs)
    then show ?thesis using Cons.IH by (auto simp: adjacent_Cons)
  qed
qed

lemma escapeCommentEnd_hd:
  "escapeCommentEnd s \<noteq> [] \<Longrightarrow> hd (escapeCommentEnd s) = CHR ''/'' \<Longrightarrow> s \<noteq> [] \<and> hd s = CHR ''/''"
  by (induction s rule: escapeCommentEnd.induct) (auto split: if_splits)

lemma escapeCommentEnd_free: "\<not> adjacent (CHR ''*'') (CHR ''/'') (escapeCommentEnd s)"
proof (induction s rule: escapeCommentEnd.induct)
  case (1 c d rest)
  show ?case
  proof (cases "c = CHR ''*'' \<and> d = CHR ''/''")
    case True
    then have "\<not> adjacent (CHR ''*'') (CHR ''/'') (escapeCommentEnd rest)"
      using 1 by blast
    then show ?thesis using True by (simp add: adjacent_Cons)
  next
    case False
    then have ih: "\<not> adjacent (CHR ''*'') (CHR ''/'') (escapeCommentEnd (d # rest))"
      using 1 by blast
    have "\<not> (c = CHR ''*'' \<and> escapeCommentEnd (d # rest) \<noteq> [] \<and> hd (escapeCommentEnd (d # rest)) = CHR ''/'')"
      using False escapeCommentEnd_hd[of "d # rest"] by auto
    moreover have "escapeCommentEnd (c # d # rest) = c # escapeCommentEnd (d # rest)"
      using False by auto
    ultimately show ?thesis using ih by (simp only: adjacent_Cons) blast
  qed
qed simp_all

lemma adjacent_wrap:
  assumes "\<not> adjacent a b body" "\<not> adjacent a b pre" "\<not> adjacent a b post"
    and "pre = [] \<or> last pre \<noteq> a" "post = [] \<or> hd post \<noteq> b"
  shows "\<not> adjacent a b (pre @ body @ post)"
  using assms by (cases "body = []") (auto simp: adjacent_append)

text \<open>Joining after splitting is a character-wise substitution.\<close>

lemma splitOn_nonempty: "splitOn sep s \<noteq> []"
  by (induction s) (auto split: list.splits)

lemma joinWith_Cons: "ls \<noteq> [] \<Longrightarrow> joinWith sep (l # ls) = l @ sep @ joinWith sep ls"
  by (cases ls) simp_all

lemma joinWith_Cons_Cons: "joinWith sep ((c # l) # ls) = c # joinWith sep (l # ls)"
  by (cases ls) simp_all

lemma join_split:
  "joinWith sep (splitOn c s) = concat (map (\<lambda>x. if x = c then sep else [x]) s)"
proof (induction s)
  case Nil
  then show ?case by simp
next
  case (Cons x s)
  show ?case
  proof (cases "x = c")
    case True
    then show ?thesis using Cons splitOn_nonempty[of c s] by (simp add: joinWith_Cons)
  next
    case False
    obtain l ls where sp: "splitOn c s = l # ls"
      using splitOn_nonempty[of c s] by (cases "splitOn c s") auto
    with False Cons show ?thesis by (simp add: joinWith_Cons_Cons)
  qed
qed

lemma subst_newline_free:
  "\<not> adjacent (CHR ''*'') (CHR ''/'') s \<Longrightarrow>
   \<not> adjacent (CHR ''*'') (CHR ''/'')
       (concat (map (\<lambda>x. if x = newline then newline # ''* '' else [x]) s))"
proof (induction s)
  case Nil
  then show ?case by simp
next
  case (Cons x s)
  let ?f = "\<lambda>x. if x = newline then newline # ''* '' else [x]"
  have hd_eq: "concat (map ?f s) \<noteq> [] \<Longrightarrow> hd (concat (map ?f s)) = CHR ''/'' \<Longrightarrow> s \<noteq> [] \<and> hd s = CHR ''/''"
    by (cases s) (auto simp: newline_def split: if_splits)
  from Cons have ih: "\<not> adjacent (CHR ''*'') (CHR ''/'') (concat (map ?f s))"
    and nx: "\<not> (x = CHR ''*'' \<and> s \<noteq> [] \<and> hd s = CHR ''/'')"
    by (auto simp: adjacent_Cons)
  show ?case
  proof (cases "x = newline")
    case True
    then show ?thesis using ih by (simp add: adjacent_Cons newline_def)
  next
    case False
    then show ?thesis using ih nx hd_eq by (auto simp: adjacent_Cons)
  qed
qed

lemma escapeCommentEnd_none:
  "\<not> adjacent (CHR ''*'') (CHR ''/'') d \<Longrightarrow> escapeCommentEnd d = d"
  by (induction d rule: escapeCommentEnd.induct) (auto simp: adjacent_Cons)

lemma escapeCommentEnd_first:
  "\<not> adjacent (CHR ''*'') (CHR ''/'') a \<Longrightarrow>
   escapeCommentEnd (a @ ''*/'' @ b) = a @ '' * /'' @ escapeCommentEnd b"
proof (induction a)
  case Nil
  then show ?case by simp
next
  case (Cons c a)
  then have ih: "escapeCommentEnd (a @ ''*/'' @ b) = a @ '' * /'' @ escapeCommentEnd b"
    by (simp add: adjacent_Cons)
  show ?case
  proof (cases a)
    case Nil
    then show ?thesis by simp
  next
    case (Cons d rest)
    with Cons.prems have "\<not> (c = CHR ''*'' \<and> d = CHR ''/'')"
      by (auto simp: adjacent_Cons)
    then show ?thesis using ih unfolding Cons by auto
  qed
qed

text \<open>
  C8. \<open>toComment\<close> of no description is the empty string. \<open>toComment\<close> of a
  description \<open>d\<close> starts with \<open>/**\<close> and ends with \<open>*/\<close> and a newline, and is
  the opening line, then the rewritten description with \<open>* \<close> put behind each of its
  newlines, then the closing line. The rewritten description is \<open>d\<close> itself when \<open>d\<close>
  has no \<open>*/\<close>, and otherwise the text in front of the first \<open>*/\<close>, then \<open> * /\<close>,
  then the rewriting of the rest: every \<open>*/\<close> is replaced, from left to right. The
  rewritten description contains no \<open>*/\<close>, and neither does anything of the result in
  front of the final \<open>/\<close>: the closing \<open>*/\<close> is the only one, so the description cannot
  end the comment early.
\<close>

theorem toComment_shape:
  "toComment None = [] \<and>
   prefix ''/**'' (toComment (Some d)) \<and>
   suffix (''*/'' @ [newline]) (toComment (Some d)) \<and>
   toComment (Some d) =
     ''/**'' @ [newline] @ ''* '' @
     concat (map (\<lambda>c. if c = newline then newline # ''* '' else [c]) (escapeCommentEnd d)) @
     [newline] @ ''*/'' @ [newline] \<and>
   (\<not> sublist ''*/'' d \<longrightarrow> escapeCommentEnd d = d) \<and>
   (\<not> sublist ''*/'' a \<longrightarrow> escapeCommentEnd (a @ ''*/'' @ b) = a @ '' * /'' @ escapeCommentEnd b) \<and>
   \<not> sublist ''*/'' (escapeCommentEnd d) \<and>
   \<not> sublist ''*/'' (butlast (butlast (toComment (Some d))))"
proof -
  let ?body = "joinWith (newline # ''* '') (splitOn newline (escapeCommentEnd d))"
  have body: "\<not> adjacent (CHR ''*'') (CHR ''/'') ?body"
    unfolding join_split by (rule subst_newline_free) (rule escapeCommentEnd_free)
  have tc: "toComment (Some d) = (''/**'' @ [newline] @ ''* '') @ ?body @ ([newline] @ ''*/'' @ [newline])"
    by simp
  have bl: "butlast (butlast (toComment (Some d))) = (''/**'' @ [newline] @ ''* '') @ ?body @ [newline, CHR ''*'']"
    unfolding tc by (simp add: butlast_append)
  have "\<not> adjacent (CHR ''*'') (CHR ''/'') ((''/**'' @ [newline] @ ''* '') @ ?body @ [newline, CHR ''*''])"
    by (rule adjacent_wrap[OF body]) (simp_all add: newline_def)
  then have 8: "\<not> sublist ''*/'' (butlast (butlast (toComment (Some d))))"
    unfolding bl sublist_pair_adjacent .
  have 7: "\<not> sublist ''*/'' (escapeCommentEnd d)"
    unfolding sublist_pair_adjacent by (rule escapeCommentEnd_free)
  have 1: "toComment None = []" by simp
  have 2: "prefix ''/**'' (toComment (Some d))" by simp
  have 3: "suffix (''*/'' @ [newline]) (toComment (Some d))"
    unfolding tc by (metis append.assoc suffixI)
  have 4: "toComment (Some d) =
     ''/**'' @ [newline] @ ''* '' @
     concat (map (\<lambda>c. if c = newline then newline # ''* '' else [c]) (escapeCommentEnd d)) @
     [newline] @ ''*/'' @ [newline]"
    unfolding tc join_split by simp
  have 5: "\<not> sublist ''*/'' d \<longrightarrow> escapeCommentEnd d = d"
    unfolding sublist_pair_adjacent by (simp add: escapeCommentEnd_none)
  have 6: "\<not> sublist ''*/'' a \<longrightarrow>
      escapeCommentEnd (a @ ''*/'' @ b) = a @ '' * /'' @ escapeCommentEnd b"
    unfolding sublist_pair_adjacent using escapeCommentEnd_first[of a b] by blast
  from 1 2 3 4 5 6 7 8 show ?thesis by (intro conjI)
qed

lemma no_end_one: "\<not> sublist ''*/'' ''one''" and no_end_two: "\<not> sublist ''*/'' '' two''"
  unfolding sublist_pair_adjacent by simp_all

theorem toComment_shape_witness:
  "\<not> sublist ''*/'' ''one'' \<and> \<not> sublist ''*/'' '' two'' \<and>
   escapeCommentEnd '' two'' = '' two'' \<and>
   escapeCommentEnd (''one'' @ ''*/'' @ '' two'') = ''one'' @ '' * /'' @ '' two'' \<and>
   toComment (Some ''one*/ two'') = ''/**'' @ [newline] @ ''* one * / two'' @ [newline] @ ''*/'' @ [newline]"
proof -
  note shape = toComment_shape[of "'' two''" "''one''" "'' two''"]
  from shape no_end_two have e2: "escapeCommentEnd '' two'' = '' two''"
    by blast
  from shape no_end_one have
    "escapeCommentEnd (''one'' @ ''*/'' @ '' two'') = ''one'' @ '' * /'' @ escapeCommentEnd '' two''"
    by blast
  then have e1: "escapeCommentEnd (''one'' @ ''*/'' @ '' two'') = ''one'' @ '' * /'' @ '' two''"
    unfolding e2 .
  have c: "toComment (Some ''one*/ two'') =
      ''/**'' @ [newline] @ ''* one * / two'' @ [newline] @ ''*/'' @ [newline]"
    by code_simp
  from no_end_one no_end_two e2 e1 c show ?thesis by (intro conjI)
qed

lemma hyphen_not_alnum [simp]: "\<not> isLowerOrDigit (CHR ''-'')" "\<not> isUpperAZ (CHR ''-'')"
  by (simp_all add: isLowerOrDigit_def isLowerAZ_def isDigit09_def isUpperAZ_def)

lemma kebabChar_alt: "kebabChar c \<longleftrightarrow> isLowerOrDigit c \<or> c = CHR ''-''"
  by (auto simp: kebabChar_def isLowerOrDigit_def)

lemma kebabChar_not_upper: "kebabChar c \<Longrightarrow> \<not> isUpperAZ c"
  by (auto simp: kebabChar_def isLowerAZ_def isDigit09_def isUpperAZ_def)

lemma kebabChar_lower_fix: "kebabChar c \<Longrightarrow> toLowerCaseChar c = c"
  by (auto simp: kebabChar_def toLowerCaseChar_def Let_def isLowerAZ_def isDigit09_def isUpperAZ_def)

lemma collapseNonAlnum_chars: "list_all kebabChar (collapseNonAlnum x)"
  by (induction x rule: collapseNonAlnum.induct) (auto simp: kebabChar_alt)

lemma collapseNonAlnum_hd:
  "collapseNonAlnum y \<noteq> [] \<Longrightarrow> hd (collapseNonAlnum y) = CHR ''-'' \<Longrightarrow>
   y \<noteq> [] \<and> \<not> isLowerOrDigit (hd y)"
  by (cases y) (auto split: if_splits)

lemma collapseNonAlnum_noadj: "\<not> adjacent (CHR ''-'') (CHR ''-'') (collapseNonAlnum x)"
proof (induction x rule: collapseNonAlnum.induct)
  case 1
  then show ?case by simp
next
  case (2 c cs)
  show ?case
  proof (cases "isLowerOrDigit c")
    case True
    then have "c \<noteq> CHR ''-''" by auto
    with True 2 show ?thesis by (simp add: adjacent_Cons)
  next
    case False
    let ?r = "dropWhile (\<lambda>x. \<not> isLowerOrDigit x) cs"
    have ih: "\<not> adjacent (CHR ''-'') (CHR ''-'') (collapseNonAlnum ?r)"
      using False 2 by simp
    have "\<not> (collapseNonAlnum ?r \<noteq> [] \<and> hd (collapseNonAlnum ?r) = CHR ''-'')"
    proof
      assume "collapseNonAlnum ?r \<noteq> [] \<and> hd (collapseNonAlnum ?r) = CHR ''-''"
      then have "?r \<noteq> [] \<and> \<not> isLowerOrDigit (hd ?r)"
        using collapseNonAlnum_hd by blast
      then show False using hd_dropWhile[of "\<lambda>x. \<not> isLowerOrDigit x" cs] by blast
    qed
    with ih False show ?thesis by (simp add: adjacent_Cons)
  qed
qed

lemma collapseHyphens_id:
  "\<not> adjacent (CHR ''-'') (CHR ''-'') y \<Longrightarrow> collapseHyphens y = y"
proof (induction y)
  case Nil
  then show ?case by simp
next
  case (Cons c cs)
  then have ih: "collapseHyphens cs = cs" by (simp add: adjacent_Cons)
  show ?case
  proof (cases "c = CHR ''-''")
    case True
    with Cons.prems have "cs = [] \<or> hd cs \<noteq> CHR ''-''" by (auto simp: adjacent_Cons)
    then have "dropWhile (\<lambda>x. x = CHR ''-'') cs = cs" by (cases cs) auto
    with True ih show ?thesis by simp
  next
    case False
    with ih show ?thesis by simp
  qed
qed

lemma collapseNonAlnum_id:
  "list_all kebabChar y \<Longrightarrow> \<not> adjacent (CHR ''-'') (CHR ''-'') y \<Longrightarrow> collapseNonAlnum y = y"
proof (induction y)
  case Nil
  then show ?case by simp
next
  case (Cons c cs)
  then have ih: "collapseNonAlnum cs = cs" by (simp add: adjacent_Cons)
  show ?case
  proof (cases "isLowerOrDigit c")
    case True
    with ih show ?thesis by simp
  next
    case False
    with Cons.prems have c: "c = CHR ''-''" by (simp add: kebabChar_alt)
    with Cons.prems have "cs = [] \<or> isLowerOrDigit (hd cs)"
      by (cases cs) (auto simp: adjacent_Cons kebabChar_alt)
    then have "dropWhile (\<lambda>x. \<not> isLowerOrDigit x) cs = cs" by (cases cs) auto
    with False c ih show ?thesis by simp
  qed
qed

lemma hyphenateLowerUpper_id: "list_all (\<lambda>c. \<not> isUpperAZ c) y \<Longrightarrow> hyphenateLowerUpper y = y"
  by (induction y rule: hyphenateLowerUpper.induct) auto

lemma hyphenateAcronym_id: "list_all (\<lambda>c. \<not> isUpperAZ c) y \<Longrightarrow> hyphenateAcronym y = y"
  by (induction y) (auto simp: Let_def)

lemma adjacent_tl: "adjacent a b (tl s) \<Longrightarrow> adjacent a b s"
  by (cases s) (auto simp: adjacent_Cons)

lemma adjacent_butlast: "adjacent a b (butlast s) \<Longrightarrow> adjacent a b s"
proof (cases "s = []")
  case True
  then show "adjacent a b (butlast s) \<Longrightarrow> adjacent a b s" by simp
next
  case False
  then have "s = butlast s @ [last s]" by simp
  moreover assume "adjacent a b (butlast s)"
  ultimately show "adjacent a b s" by (metis adjacent_append)
qed

lemma list_all_butlast: "list_all P s \<Longrightarrow> list_all P (butlast s)"
  by (induction s) auto

lemma butlast_last_noadj:
  assumes "\<not> adjacent a a s" "s \<noteq> []" "last s = a" "butlast s \<noteq> []"
  shows "last (butlast s) \<noteq> a"
proof
  assume "last (butlast s) = a"
  have "s = butlast s @ [last s]" using assms(2) by simp
  then have "adjacent a a s \<longleftrightarrow> adjacent a a (butlast s) \<or> adjacent a a [last s] \<or>
      (butlast s \<noteq> [] \<and> last (butlast s) = a \<and> [last s] \<noteq> [] \<and> hd [last s] = a)"
    by (metis adjacent_append)
  with assms \<open>last (butlast s) = a\<close> show False by simp
qed

lemma trimHyphens_props:
  assumes ch: "list_all kebabChar s" and na: "\<not> adjacent (CHR ''-'') (CHR ''-'') s"
  shows "list_all kebabChar (trimHyphens s)"
    and "\<not> adjacent (CHR ''-'') (CHR ''-'') (trimHyphens s)"
    and "trimHyphens s = [] \<or> hd (trimHyphens s) \<noteq> CHR ''-''"
    and "trimHyphens s = [] \<or> last (trimHyphens s) \<noteq> CHR ''-''"
proof -
  define s1 where "s1 = (case s of [] \<Rightarrow> [] | c # cs \<Rightarrow> if c = CHR ''-'' then cs else s)"
  have t: "trimHyphens s = (if s1 \<noteq> [] \<and> last s1 = CHR ''-'' then butlast s1 else s1)"
    by (simp add: trimHyphens_def s1_def Let_def)
  have s1ch: "list_all kebabChar s1" using ch by (cases s) (auto simp: s1_def)
  have s1na: "\<not> adjacent (CHR ''-'') (CHR ''-'') s1"
    using na by (cases s) (auto simp: s1_def adjacent_Cons)
  have s1hd: "s1 = [] \<or> hd s1 \<noteq> CHR ''-''"
    using na by (cases s) (auto simp: s1_def adjacent_Cons)
  show "list_all kebabChar (trimHyphens s)"
    using s1ch by (simp add: t list_all_butlast)
  show "\<not> adjacent (CHR ''-'') (CHR ''-'') (trimHyphens s)"
    using s1na adjacent_butlast by (auto simp: t)
  show "trimHyphens s = [] \<or> hd (trimHyphens s) \<noteq> CHR ''-''"
  proof (cases "s1 \<noteq> [] \<and> last s1 = CHR ''-''")
    case True
    then have "trimHyphens s = butlast s1" by (simp add: t)
    moreover have "butlast s1 = [] \<or> hd (butlast s1) = hd s1"
      by (cases s1) auto
    ultimately show ?thesis using s1hd True by auto
  next
    case False
    then show ?thesis using s1hd by (auto simp: t)
  qed
  show "trimHyphens s = [] \<or> last (trimHyphens s) \<noteq> CHR ''-''"
  proof (cases "s1 \<noteq> [] \<and> last s1 = CHR ''-''")
    case True
    then have "trimHyphens s = butlast s1" by (simp add: t)
    then show ?thesis using butlast_last_noadj[OF s1na] True by auto
  next
    case False
    then show ?thesis by (auto simp: t)
  qed
qed

lemma trimHyphens_id:
  "s = [] \<or> (hd s \<noteq> CHR ''-'' \<and> last s \<noteq> CHR ''-'') \<Longrightarrow> trimHyphens s = s"
  by (cases s) (auto simp: trimHyphens_def Let_def)

lemma prefix_single: "prefix [a] k \<longleftrightarrow> k \<noteq> [] \<and> hd k = a"
  by (cases k) auto

lemma suffix_single: "suffix [a] k \<longleftrightarrow> k \<noteq> [] \<and> last k = a"
proof
  assume "suffix [a] k"
  then obtain zs where "k = zs @ [a]" by (auto simp: suffix_def)
  then show "k \<noteq> [] \<and> last k = a" by simp
next
  assume "k \<noteq> [] \<and> last k = a"
  then have "k = butlast k @ [a]" by auto
  then show "suffix [a] k" by (metis suffixI)
qed

lemma toKebabCase_facts:
  "list_all kebabChar (toKebabCase s)"
  "\<not> adjacent (CHR ''-'') (CHR ''-'') (toKebabCase s)"
  "toKebabCase s = [] \<or> hd (toKebabCase s) \<noteq> CHR ''-''"
  "toKebabCase s = [] \<or> last (toKebabCase s) \<noteq> CHR ''-''"
proof -
  let ?x = "map toLowerCaseChar (hyphenateAcronym (hyphenateLowerUpper s))"
  have c: "collapseHyphens (collapseNonAlnum ?x) = collapseNonAlnum ?x"
    by (rule collapseHyphens_id) (rule collapseNonAlnum_noadj)
  have k: "toKebabCase s = (if s = [] then [] else trimHyphens (collapseNonAlnum ?x))"
    by (simp add: toKebabCase_def c)
  note tp = trimHyphens_props[OF collapseNonAlnum_chars collapseNonAlnum_noadj, of ?x]
  show "list_all kebabChar (toKebabCase s)" using tp(1) by (simp add: k)
  show "\<not> adjacent (CHR ''-'') (CHR ''-'') (toKebabCase s)" using tp(2) by (simp add: k)
  show "toKebabCase s = [] \<or> hd (toKebabCase s) \<noteq> CHR ''-''" using tp(3) by (simp add: k)
  show "toKebabCase s = [] \<or> last (toKebabCase s) \<noteq> CHR ''-''" using tp(4) by (simp add: k)
qed

lemma toKebabCase_fixed:
  assumes "list_all kebabChar k" "\<not> adjacent (CHR ''-'') (CHR ''-'') k"
    "k = [] \<or> hd k \<noteq> CHR ''-''" "k = [] \<or> last k \<noteq> CHR ''-''"
  shows "toKebabCase k = k"
proof -
  have nu: "list_all (\<lambda>c. \<not> isUpperAZ c) k"
    using assms(1) by (simp add: list_all_iff kebabChar_not_upper)
  have lo: "map toLowerCaseChar k = k"
    using assms(1) by (simp add: list_all_iff map_idI kebabChar_lower_fix)
  have "trimHyphens k = k" using assms(3,4) by (intro trimHyphens_id) auto
  then show ?thesis
    by (simp add: toKebabCase_def hyphenateLowerUpper_id[OF nu] hyphenateAcronym_id[OF nu] lo
        collapseNonAlnum_id[OF assms(1,2)] collapseHyphens_id[OF assms(2)])
qed

text \<open>
  C9. For every input the result of \<open>toKebabCase\<close> consists of lower-case ASCII letters,
  digits and hyphens only, does not start with a hyphen, does not end with a hyphen, has
  no two hyphens in a row, and is a fixed point of \<open>toKebabCase\<close>.
\<close>

theorem toKebabCase_kebab_idempotent:
  "list_all (\<lambda>c. isLowerAZ c \<or> isDigit09 c \<or> c = CHR ''-'') (toKebabCase s) \<and>
   \<not> prefix ''-'' (toKebabCase s) \<and>
   \<not> suffix ''-'' (toKebabCase s) \<and>
   \<not> sublist ''--'' (toKebabCase s) \<and>
   toKebabCase (toKebabCase s) = toKebabCase s"
proof -
  note f = toKebabCase_facts[of s]
  have 1: "list_all (\<lambda>c. isLowerAZ c \<or> isDigit09 c \<or> c = CHR ''-'') (toKebabCase s)"
    using f(1) by (simp add: list_all_iff kebabChar_def)
  have 2: "\<not> prefix ''-'' (toKebabCase s)" using f(3) by (auto simp: prefix_single)
  have 3: "\<not> suffix ''-'' (toKebabCase s)" using f(4) by (auto simp: suffix_single)
  have 4: "\<not> sublist ''--'' (toKebabCase s)" using f(2) by (simp add: sublist_pair_adjacent)
  have 5: "toKebabCase (toKebabCase s) = toKebabCase s" by (rule toKebabCase_fixed[OF f])
  show ?thesis using 1 2 3 4 5 by blast
qed

section \<open>Properties of the operation walk\<close>

lemma map_of_mapSet: "map_of (mapSet k v m) k' = (if k' = k then Some v else map_of m k')"
  by (induction m) auto

lemma map_fst_mapSet:
  "map fst (mapSet k v m) = (if k \<in> fst ` set m then map fst m else map fst m @ [k])"
  by (induction m) auto

lemma mapSet_fresh: "map_of m k = None \<Longrightarrow> mapSet k v m = m @ [(k, v)]"
  by (induction m) (auto split: if_splits)

lemma distinct_mapSet: "distinct (map fst m) \<Longrightarrow> distinct (map fst (mapSet k v m))"
  by (simp add: map_fst_mapSet)

lemma methodName_upper: "map toUpperCaseChar (methodName m) = spec_methodUpper m"
  by (cases m) (simp_all add: spec_methodUpper_def, code_simp+)

lemma camelize_empty: "camelize [] = []"
  by (simp add: camelize_def)

lemma camelize_get_user_name: "camelize ''get_user_name'' = ''getUserName''"
  by code_simp

text \<open>
  C10. The claim: the parsed operation id is \<open>camelize(operationId)\<close> when the operation
  declares an \<open>operationId\<close>, and the upper-case method name followed by the path
  otherwise. The code tests \<open>operation.operationId\<close> for truthiness, and the empty
  string is falsy: an operation that declares \<open>operationId: ""\<close> gets the fallback
  \<open>GET/health\<close>, not \<open>camelize("")\<close>, which is the empty string.
\<close>

theorem operationId_empty_counterexample:
  "operationIdOf Get ''/health'' (Some []) = ''GET/health'' \<and>
   operationIdOf Get ''/health'' (Some []) \<noteq> camelize []"
  by (simp add: operationIdOf_def methodName_upper spec_methodUpper_def camelize_empty
      del: methodName.simps)

text \<open>
  C10, amended. The parsed operation id is \<open>camelize(operationId)\<close> when the operation
  declares a non-empty \<open>operationId\<close>; when the \<open>operationId\<close> is absent or empty, it
  is the upper-case HTTP method name followed by the literal path.
\<close>

theorem operationIdOf_cases:
  "(oid \<noteq> [] \<longrightarrow> operationIdOf method path (Some oid) = camelize oid) \<and>
   operationIdOf method path (Some []) = spec_methodUpper method @ path \<and>
   operationIdOf method path None = spec_methodUpper method @ path"
  by (simp add: operationIdOf_def methodName_upper)

theorem operationIdOf_cases_witness:
  "operationIdOf Get ''/users'' (Some ''get_user_name'') = ''getUserName'' \<and>
   operationIdOf Get ''/health'' None = ''GET/health''"
  using operationIdOf_cases[of "''get_user_name''" Get "''/users''"]
    operationIdOf_cases[of "''x''" Get "''/health''"]
  by (simp add: camelize_get_user_name spec_methodUpper_def)

lemma keys_mapSet: "map fst (mapSet k v m) = setAdd k (map fst m)"
  by (simp add: map_fst_mapSet setAdd_def)

lemma optGet_Some_truthy: "optGet x k = Some v \<Longrightarrow> truthy x"
proof (cases x)
  case None
  then show "optGet x k = Some v \<Longrightarrow> truthy x" by simp
next
  case (Some j)
  then show "optGet x k = Some v \<Longrightarrow> truthy x" by (cases j) simp_all
qed

lemma streamResponse_keeps:
  "successSchemas (oper (streamResponse G schemaId response st)) = successSchemas (oper st)"
  "errorSchemas (oper (streamResponse G schemaId response st)) = errorSchemas (oper st)"
  "voidSchemas (oper (streamResponse G schemaId response st)) = voidSchemas (oper st)"
  "defaultSchema (streamResponse G schemaId response st) = defaultSchema st"
  by (simp_all add: streamResponse_def Let_def split_beta split: option.splits)

lemma voidResponse_keeps:
  "successSchemas (oper (voidResponse status response st)) = successSchemas (oper st)"
  "errorSchemas (oper (voidResponse status response st)) = errorSchemas (oper st)"
  "defaultSchema (voidResponse status response st) = defaultSchema st"
  by (simp_all add: voidResponse_def split: option.splits)

lemma voidResponse_void:
  "voidSchemas (oper (voidResponse status response st)) =
     (if \<not> truthy (optGet response ''content'') \<and>
         (case statusMajorNumber status of None \<Rightarrow> False | Some n \<Rightarrow> n < 4)
      then setAdd (map toLowerCaseChar status) (voidSchemas (oper st))
      else voidSchemas (oper st))"
  by (simp add: voidResponse_def split: option.splits)

lemma jsonResponse_keys:
  assumes "jsonResponse G spec schemaId status schema st = Inr fl"
    and "st1 = (case fl of Continue s \<Rightarrow> s | Return s \<Rightarrow> s)"
  shows "map fst (successSchemas (oper st1)) =
           (if status \<noteq> ''default'' \<and>
               (case statusMajorNumber status of None \<Rightarrow> False | Some n \<Rightarrow> n < 4)
            then setAdd (map toLowerCaseChar status) (map fst (successSchemas (oper st)))
            else map fst (successSchemas (oper st)))"
    and "map fst (errorSchemas (oper st1)) =
           (if status \<noteq> ''default'' \<and>
               (case statusMajorNumber status of None \<Rightarrow> False | Some n \<Rightarrow> 4 \<le> n)
            then setAdd (map toLowerCaseChar status) (map fst (errorSchemas (oper st)))
            else map fst (errorSchemas (oper st)))"
    and "voidSchemas (oper st1) = voidSchemas (oper st)"
    and "(defaultSchema st1 \<noteq> None) = (status = ''default'' \<or> defaultSchema st \<noteq> None)"
  using assms
  by (auto simp: jsonResponse_def Let_def split_beta keys_mapSet
      split: if_splits option.splits sum.splits bool.splits)

lemma responseStep_keys_all:
  assumes "responseStep G fuel spec schemaId e st = Inr st'"
  shows "(map fst (successSchemas (oper st')) =
           (if isJsonSuccess fuel spec e
            then setAdd (lowerStatus e) (map fst (successSchemas (oper st)))
            else map fst (successSchemas (oper st)))) \<and>
          (map fst (errorSchemas (oper st')) =
           (if isJsonError fuel spec e
            then setAdd (lowerStatus e) (map fst (errorSchemas (oper st)))
            else map fst (errorSchemas (oper st)))) \<and>
          (voidSchemas (oper st') =
           (if isVoidStatus fuel spec e
            then setAdd (lowerStatus e) (voidSchemas (oper st))
            else voidSchemas (oper st))) \<and>
          ((defaultSchema st' \<noteq> None) = (isJsonDefault fuel spec e \<or> defaultSchema st \<noteq> None))"
proof -
  from assms obtain response where d: "derefResponse fuel spec (Some (snd e)) = Inr response"
    by (auto simp: responseStep_def split: sum.splits)
  define content where "content = optGet response ''content''"
  define jsonSchema where
    "jsonSchema = optGet (optGet content ''application/json'') ''schema''"
  show ?thesis
  proof (cases "truthy jsonSchema")
    case False
    then have js: "jsonSchemaOf fuel spec (snd e) = None"
      by (simp add: jsonSchemaOf_def d jsonSchema_def content_def)
    from False assms have st': "st' = voidResponse (fst e) response (streamResponse G schemaId response st)"
      by (auto simp: responseStep_def d Let_def jsonSchema_def content_def split: option.splits)
    show ?thesis
      unfolding st'
      by (simp add: voidResponse_keeps voidResponse_void streamResponse_keeps isJsonSuccess_def
          isJsonError_def isJsonDefault_def isVoidStatus_def js d lowerStatus_def)
  next
    case True
    then obtain schema where sc: "jsonSchema = Some schema" by (cases jsonSchema) auto
    then have js: "jsonSchemaOf fuel spec (snd e) = Some schema"
      using True by (simp add: jsonSchemaOf_def d jsonSchema_def content_def)
    have "truthy (optGet content ''application/json'')"
      using sc unfolding jsonSchema_def by (rule optGet_Some_truthy)
    then obtain mid where "optGet content ''application/json'' = Some mid"
      by (cases "optGet content ''application/json''") auto
    then have ct: "truthy (optGet response ''content'')"
      unfolding content_def by (rule optGet_Some_truthy)
    then have nv: "\<not> isVoidStatus fuel spec e" by (simp add: isVoidStatus_def d)
    from assms True sc obtain fl where
      fl: "jsonResponse G spec schemaId (fst e) schema st = Inr fl"
      and st': "st' = (case fl of
                   Return s \<Rightarrow> s
                 | Continue s \<Rightarrow> voidResponse (fst e) response (streamResponse G schemaId response s))"
      by (auto simp: responseStep_def d Let_def jsonSchema_def content_def
          split: sum.splits flow.splits)
    define st1 where "st1 = (case fl of Continue s \<Rightarrow> s | Return s \<Rightarrow> s)"
    note k = jsonResponse_keys[OF fl st1_def]
    have same: "successSchemas (oper st') = successSchemas (oper st1)"
      "errorSchemas (oper st') = errorSchemas (oper st1)"
      "voidSchemas (oper st') = voidSchemas (oper st1)"
      "defaultSchema st' = defaultSchema st1"
      unfolding st' st1_def
      by (cases fl; simp add: voidResponse_keeps voidResponse_void streamResponse_keeps ct)+
    show ?thesis
      unfolding same k
      by (simp add: isJsonSuccess_def isJsonError_def isJsonDefault_def js nv lowerStatus_def)
  qed
qed

lemma responseStep_keys:
  assumes "responseStep G fuel spec schemaId e st = Inr st'"
  shows "map fst (successSchemas (oper st')) =
           (if isJsonSuccess fuel spec e
            then setAdd (lowerStatus e) (map fst (successSchemas (oper st)))
            else map fst (successSchemas (oper st)))"
    and "map fst (errorSchemas (oper st')) =
           (if isJsonError fuel spec e
            then setAdd (lowerStatus e) (map fst (errorSchemas (oper st)))
            else map fst (errorSchemas (oper st)))"
    and "voidSchemas (oper st') =
           (if isVoidStatus fuel spec e
            then setAdd (lowerStatus e) (voidSchemas (oper st))
            else voidSchemas (oper st))"
    and "(defaultSchema st' \<noteq> None) = (isJsonDefault fuel spec e \<or> defaultSchema st \<noteq> None)"
  using responseStep_keys_all[OF assms] by simp_all

lemma foldl_setAdd_snoc_filter:
  "foldl (\<lambda>ks k. setAdd k ks) acc (map f (filter P (e # es))) =
     foldl (\<lambda>ks k. setAdd k ks) (if P e then setAdd (f e) acc else acc) (map f (filter P es))"
  by simp

lemma walkResponses_keys:
  assumes "walkResponses G fuel spec schemaId entries st0 = Inr st"
  shows "map fst (successSchemas (oper st)) =
           foldl (\<lambda>ks k. setAdd k ks) (map fst (successSchemas (oper st0)))
             (map lowerStatus (filter (isJsonSuccess fuel spec) entries))"
    and "map fst (errorSchemas (oper st)) =
           foldl (\<lambda>ks k. setAdd k ks) (map fst (errorSchemas (oper st0)))
             (map lowerStatus (filter (isJsonError fuel spec) entries))"
    and "voidSchemas (oper st) =
           foldl (\<lambda>ks k. setAdd k ks) (voidSchemas (oper st0))
             (map lowerStatus (filter (isVoidStatus fuel spec) entries))"
    and "(defaultSchema st \<noteq> None) =
           (list_ex (isJsonDefault fuel spec) entries \<or> defaultSchema st0 \<noteq> None)"
  using assms
proof (induction entries arbitrary: st0)
  case Nil
  {
    case 1 then show ?case by simp
  next
    case 2 then show ?case by simp
  next
    case 3 then show ?case by simp
  next
    case 4 then show ?case by simp
  }
next
  case (Cons e entries)
  {
    case 1
    then obtain mid where m: "responseStep G fuel spec schemaId e st0 = Inr mid"
      and r: "walkResponses G fuel spec schemaId entries mid = Inr st"
      by (auto split: sum.splits)
    show ?case
      unfolding Cons.IH(1)[OF r] responseStep_keys(1)[OF m] by simp
  next
    case 2
    then obtain mid where m: "responseStep G fuel spec schemaId e st0 = Inr mid"
      and r: "walkResponses G fuel spec schemaId entries mid = Inr st"
      by (auto split: sum.splits)
    show ?case
      unfolding Cons.IH(2)[OF r] responseStep_keys(2)[OF m] by simp
  next
    case 3
    then obtain mid where m: "responseStep G fuel spec schemaId e st0 = Inr mid"
      and r: "walkResponses G fuel spec schemaId entries mid = Inr st"
      by (auto split: sum.splits)
    show ?case
      unfolding Cons.IH(3)[OF r] responseStep_keys(3)[OF m] by simp
  next
    case 4
    then obtain mid where m: "responseStep G fuel spec schemaId e st0 = Inr mid"
      and r: "walkResponses G fuel spec schemaId entries mid = Inr st"
      by (auto split: sum.splits)
    show ?case
      unfolding Cons.IH(4)[OF r] responseStep_keys(4)[OF m] by auto
  }
qed

lemma set_foldl_setAdd: "set (foldl (\<lambda>names name. setAdd name names) acc xs) = set acc \<union> set xs"
  by (induction xs arbitrary: acc) (auto simp: setAdd_def)

lemma set_addedInOrder: "set (addedInOrder keys) = set keys"
  by (simp add: addedInOrder_def set_foldl_setAdd)

lemma successHandlers_keys:
  "map fst (successHandlers operation) =
     (case successSchemas operation of
        [(status, schema)] \<Rightarrow> [if prefix ''2'' status then ''2xx'' else status]
      | entries \<Rightarrow> map fst entries)"
proof (cases "successSchemas operation")
  case Nil
  then show ?thesis by (simp add: successHandlers_def)
next
  case (Cons e es)
  obtain status schema where e: "e = (status, schema)" by (cases e)
  show ?thesis
  proof (cases es)
    case Nil
    with Cons e show ?thesis by (simp add: successHandlers_def)
  next
    case (Cons e2 es2)
    with \<open>successSchemas operation = e # es\<close> e show ?thesis
      by (simp add: successHandlers_def split_beta comp_def)
  qed
qed

lemma finishOperation_success:
  "successSchemas (finishOperation st) =
     (if successSchemas (oper st) = []
      then (case defaultSchema st of None \<Rightarrow> [] | Some d \<Rightarrow> if d \<noteq> [] then [(''2xx'', d)] else [])
      else successSchemas (oper st))"
  by (simp add: finishOperation_def Let_def split: option.splits)


text \<open>
  C3. The claim: with exactly one JSON success status the emitted key is \<open>2xx\<close> instead
  of the status code, and with several each keeps its literal status key. Every status
  below 400 with a JSON schema is a success status, but the key is only replaced when the
  status starts with \<open>2\<close>: an operation whose single JSON success response is \<open>301\<close>
  keeps the key \<open>301\<close>. And the keys that are kept are the lower-cased ones: the
  responses \<open>2XX\<close> and \<open>3XX\<close> are emitted under \<open>2xx\<close> and \<open>3xx\<close>.
\<close>

theorem single_success_301_counterexample:
  "map_sum id (\<lambda>st. (map fst (successSchemas (finishOperation st)),
                        map fst (successHandlers (finishOperation st))))
     (walkResponses recordingGenerator 1 JNull ''GetPage''
        [(''301'', jsonBody (JObj [(''type'', JStr ''object'')]))] (startState ''getPage''))
   = Inr ([''301''], [''301'']) \<and>
   map_sum id (\<lambda>st. map fst (successHandlers (finishOperation st)))
     (walkResponses recordingGenerator 1 JNull ''GetPage''
        [(''2XX'', jsonBody messageSchema), (''3XX'', jsonBody messageSchema)]
        (startState ''getPage''))
   = Inr [''2xx'', ''3xx'']"
  by code_simp

text \<open>
  C3, amended. Let the walk of the responses of an operation end without an exception.
  The JSON success statuses (a truthy JSON schema, a status other than \<open>default\<close>, a
  leading digit below 4) are registered in order under their lower-cased status keys,
  and a default schema is recorded exactly when a response \<open>default\<close> has a JSON
  schema. When no success schema is registered and the default schema has a non-empty
  name, the default schema becomes the success schema under \<open>2xx\<close>. If exactly one
  success schema is then registered, its emitted key is \<open>2xx\<close> when its key starts with
  \<open>2\<close> and its own key otherwise; if several are registered, each is emitted under
  its own lower-cased key.
\<close>

theorem success_status_keys:
  assumes "walkResponses G fuel spec schemaId entries st0 = Inr st"
    and "successSchemas (oper st0) = []" and "defaultSchema st0 = None"
  shows "map fst (successSchemas (oper st)) =
           addedInOrder (map lowerStatus (filter (isJsonSuccess fuel spec) entries)) \<and>
         (defaultSchema st \<noteq> None) = list_ex (isJsonDefault fuel spec) entries \<and>
         successSchemas (finishOperation st) =
           (if successSchemas (oper st) = []
            then (case defaultSchema st of
                    None \<Rightarrow> []
                  | Some d \<Rightarrow> if d \<noteq> [] then [(''2xx'', d)] else [])
            else successSchemas (oper st)) \<and>
         map fst (successHandlers (finishOperation st)) =
           (case successSchemas (finishOperation st) of
              [(status, schema)] \<Rightarrow> [if prefix ''2'' status then ''2xx'' else status]
            | registered \<Rightarrow> map fst registered)"
proof -
  have 1: "map fst (successSchemas (oper st)) =
           addedInOrder (map lowerStatus (filter (isJsonSuccess fuel spec) entries))"
    using walkResponses_keys(1)[OF assms(1)] by (simp add: assms(2) addedInOrder_def)
  have 2: "(defaultSchema st \<noteq> None) = list_ex (isJsonDefault fuel spec) entries"
    using walkResponses_keys(4)[OF assms(1)] by (simp add: assms(3))
  show ?thesis
    using 1 2 finishOperation_success[of st] successHandlers_keys[of "finishOperation st"]
    by (simp only: simp_thms)
qed

lemma walk_single_200:
  "walkResponses recordingGenerator 1 JNull ''GetUser'' [(''200'', jsonBody messageSchema)]
     (startState ''getUser'') =
   Inr ((startState ''getUser'')\<lparr>oper := (oper (startState ''getUser''))\<lparr>successSchemas :=
          [(''200'', ''GetUser200'')]\<rparr>, gen := [''addSchema GetUser200'']\<rparr>)"
  by code_simp

lemma walk_default_only:
  "walkResponses recordingGenerator 1 JNull ''HealthCheck'' [(''default'', jsonBody messageSchema)]
     (startState ''healthCheck'') =
   Inr ((startState ''healthCheck'')\<lparr>defaultSchema := Some ''HealthCheckdefault'',
          gen := [''addSchema HealthCheckdefault'']\<rparr>)"
  by code_simp

lemma startState_fresh:
  "successSchemas (oper (startState i)) = []" "errorSchemas (oper (startState i)) = []"
  "voidSchemas (oper (startState i)) = []" "defaultSchema (startState i) = None"
  by (simp_all add: startState_def newOperation_def)

theorem success_status_keys_witness:
  "walkResponses recordingGenerator 1 JNull ''GetUser'' [(''200'', jsonBody messageSchema)]
     (startState ''getUser'') =
   Inr ((startState ''getUser'')\<lparr>oper := (oper (startState ''getUser''))\<lparr>successSchemas :=
          [(''200'', ''GetUser200'')]\<rparr>, gen := [''addSchema GetUser200'']\<rparr>) \<and>
   addedInOrder (map lowerStatus (filter (isJsonSuccess 1 JNull) [(''200'', jsonBody messageSchema)]))
     = [''200''] \<and>
   map fst (successHandlers (finishOperation
     ((startState ''getUser'')\<lparr>oper := (oper (startState ''getUser''))\<lparr>successSchemas :=
          [(''200'', ''GetUser200'')]\<rparr>, gen := [''addSchema GetUser200'']\<rparr>))) = [''2xx''] \<and>
   walkResponses recordingGenerator 1 JNull ''HealthCheck'' [(''default'', jsonBody messageSchema)]
     (startState ''healthCheck'') =
   Inr ((startState ''healthCheck'')\<lparr>defaultSchema := Some ''HealthCheckdefault'',
          gen := [''addSchema HealthCheckdefault'']\<rparr>) \<and>
   list_ex (isJsonDefault 1 JNull) [(''default'', jsonBody messageSchema)] \<and>
   successSchemas (finishOperation
     ((startState ''healthCheck'')\<lparr>defaultSchema := Some ''HealthCheckdefault'',
          gen := [''addSchema HealthCheckdefault'']\<rparr>)) = [(''2xx'', ''HealthCheckdefault'')] \<and>
   map fst (successHandlers (finishOperation
     ((startState ''healthCheck'')\<lparr>defaultSchema := Some ''HealthCheckdefault'',
          gen := [''addSchema HealthCheckdefault'']\<rparr>))) = [''2xx'']"
  using walk_single_200 walk_default_only
    success_status_keys[OF walk_single_200 startState_fresh(1) startState_fresh(4)]
    success_status_keys[OF walk_default_only startState_fresh(1) startState_fresh(4)]
  by (simp add: startState_fresh)















lemma sublist_wrap:
  assumes "sublist x y"
  shows "sublist x (p @ y @ s)"
proof -
  from assms obtain ps ss where "y = ps @ x @ ss"
    unfolding sublist_def by blast
  then have "p @ y @ s = (p @ ps) @ x @ (ss @ s)" by simp
  then show ?thesis unfolding sublist_def by blast
qed

lemma joinWith_member: "x \<in> set xs \<Longrightarrow> sublist x (joinWith sep xs)"
proof (induction sep xs rule: joinWith.induct)
  case (1 sep)
  then show ?case by simp
next
  case (2 sep y)
  then show ?case by simp
next
  case (3 sep y z zs)
  show ?case
  proof (cases "x = y")
    case True
    have "sublist x ([] @ x @ (sep @ joinWith sep (z # zs)))"
      by (rule sublist_wrap) simp
    then show ?thesis using True by simp
  next
    case False
    with 3 have "sublist x (joinWith sep (z # zs))" by simp
    then have "sublist x ((y @ sep) @ joinWith sep (z # zs) @ [])"
      by (rule sublist_wrap)
    then show ?thesis by simp
  qed
qed




















lemma map_of_objectAssign_keeps:
  "map_of target k \<noteq> None \<Longrightarrow> map_of (objectAssign target source) k \<noteq> None"
  unfolding objectAssign_def
  by (induction source arbitrary: target) (auto simp: map_of_mapSet)

lemma mergeMember_keeps_properties:
  assumes "mergeMember spec merged member = Inr merged'"
  shows "map_of merged' ''properties'' \<noteq> None"
  using assms unfolding mergeMember_def Let_def
  by (auto simp: map_of_mapSet split: sum.splits option.splits json.splits if_splits)

lemma mergeAllOf_keeps_properties:
  "map_of merged ''properties'' \<noteq> None \<Longrightarrow> mergeAllOf spec merged members = Inr merged'
   \<Longrightarrow> map_of merged' ''properties'' \<noteq> None"
proof (induction members arbitrary: merged)
  case Nil
  then show ?case by simp
next
  case (Cons m ms)
  from Cons.prems(2) obtain mid where mid: "mergeMember spec merged m = Inr mid"
    and rest: "mergeAllOf spec mid ms = Inr merged'"
    by (auto split: sum.splits)
  from mergeMember_keeps_properties[OF mid] Cons.IH[OF _ rest] show ?case by simp
qed

lemma allOf_error_schema_tagged:
  assumes "map_of kvs ''$ref'' = None" and "map_of kvs ''allOf'' = Some (JArr members)"
    and "errorSchemaHasProperties spec (JObj kvs) = Inr b"
  shows "b"
proof -
  from assms obtain merged where
    m: "mergeAllOf spec [(''properties'', JObj []), (''required'', JArr [])] members = Inr merged"
    and b: "hasProp ''properties'' (Some (JObj merged)) = Inr b"
    by (auto simp: errorSchemaHasProperties_def split: sum.splits)
  have "map_of merged ''properties'' \<noteq> None"
    by (rule mergeAllOf_keeps_properties[OF _ m]) simp
  with b show ?thesis by auto
qed

lemma plain_error_schema_tagged_iff:
  assumes "map_of kvs ''$ref'' = None" and "map_of kvs ''allOf'' = None"
  shows "errorSchemaHasProperties spec (JObj kvs) = Inr (map_of kvs ''properties'' \<noteq> None)"
  using assms by (simp add: errorSchemaHasProperties_def)

text \<open>
  C1. The claim: an error response is tagged exactly when its resolved schema, with
  \<open>allOf\<close> flattened, is an object with explicit properties, and plain for every other
  resolved kind. The code merges the members of an \<open>allOf\<close> into an accumulator that
  starts with a \<open>properties\<close> key, so its test \<open>"properties" in errorSchema\<close> succeeds
  for every \<open>allOf\<close> (lemma \<open>allOf_error_schema_tagged\<close>). For the response \<open>400\<close>
  with the schema \<open>{ allOf: [{ type: "string" }] }\<close>, which resolves to a string: the
  code's test succeeds, the resolved schema is no object with explicit properties, the
  name \<open>GetUser400\<close> is in \<open>objectErrorSchemas\<close>, and the handler decodes
  \<open>GetUser400Body\<close> and wraps the body in \<open>new GetUser400\<close>.
\<close>

theorem allOf_of_string_is_tagged:
  "errorSchemaHasProperties JNull allOfStringSchema = Inr True \<and>
   \<not> spec_objectWithExplicitProperties 2 JNull allOfStringSchema \<and>
   map_sum id (\<lambda>st. (errorSchemas (oper st), objectErrorSchemas (oper st),
                      map snd (errorHandlers (oper st))))
     (walkResponses recordingGenerator 1 JNull ''GetUser''
        [(''400'', jsonBody allOfStringSchema)] (startState ''getUser''))
   = Inr ([(''400'', ''GetUser400'')], [''GetUser400''],
          [''(response) => HttpClientResponse.schemaBodyJson(GetUser400Body)(response).pipe(Effect.map((body) => new GetUser400(body)), Effect.flatMap(Effect.fail))''])"
  by code_simp

section \<open>Properties of the partition into modules\<close>

lemma distinct_foldl_setAdd:
  "distinct acc \<Longrightarrow> distinct (foldl (\<lambda>names name. setAdd name names) acc xs)"
  by (induction xs arbitrary: acc) (auto simp: setAdd_def)

lemma set_namesOfOperations:
  "set (namesOfOperations ops) = (\<Union>operation\<in>set ops. set (schemaNames operation))"
  by (simp add: namesOfOperations_def set_foldl_setAdd)

lemma tagGroups_snoc: "tagGroups (ops @ [operation]) = addToGroup (tagGroups ops) operation"
  by (simp add: tagGroups_def)

lemma tagGroups_lookup:
  "map_of (tagGroups ops) t =
     (if t \<in> primaryTag ` set ops then Some (filter (\<lambda>operation. primaryTag operation = t) ops)
      else None)"
proof (induction ops arbitrary: t rule: rev_induct)
  case Nil
  then show ?case by (simp add: tagGroups_def)
next
  case (snoc operation ops)
  show ?case
  proof (cases "map_of (tagGroups ops) (primaryTag operation)")
    case None
    then have "primaryTag operation \<notin> primaryTag ` set ops"
      by (simp add: snoc.IH split: if_splits)
    then have "filter (\<lambda>x. primaryTag x = primaryTag operation) ops = []"
      unfolding filter_empty_conv by (metis imageI)
    with None show ?thesis
      by (auto simp: tagGroups_snoc addToGroup_def Let_def map_of_mapSet snoc.IH)
  next
    case (Some members)
    then have "members = filter (\<lambda>x. primaryTag x = primaryTag operation) ops"
      by (simp add: snoc.IH split: if_splits)
    with Some show ?thesis
      by (auto simp: tagGroups_snoc addToGroup_def Let_def map_of_mapSet snoc.IH)
  qed
qed

lemma tagGroups_distinct: "distinct (map fst (tagGroups ops))"
proof (induction ops rule: rev_induct)
  case Nil
  then show ?case by (simp add: tagGroups_def)
next
  case (snoc operation ops)
  then show ?case
    by (auto simp: tagGroups_snoc addToGroup_def Let_def intro: distinct_mapSet split: option.splits)
qed

lemma tagGroups_member:
  "(t, os) \<in> set (tagGroups ops) \<longleftrightarrow>
     t \<in> primaryTag ` set ops \<and> os = filter (\<lambda>operation. primaryTag operation = t) ops"
proof -
  have "(t, os) \<in> set (tagGroups ops) \<longleftrightarrow> map_of (tagGroups ops) t = Some os"
    using tagGroups_distinct by (metis map_of_eq_Some_iff)
  then show ?thesis by (auto simp: tagGroups_lookup)
qed

lemma tagSchemaNames_foldl:
  "distinct (map fst acc @ map fst groups) \<Longrightarrow>
   foldl (\<lambda>m (tag, ops). mapSet tag (namesOfOperations ops) m) acc groups =
     acc @ map (\<lambda>(tag, ops). (tag, namesOfOperations ops)) groups"
proof (induction groups arbitrary: acc)
  case Nil
  then show ?case by simp
next
  case (Cons e groups)
  obtain tag ops where e: "e = (tag, ops)" by (cases e)
  from Cons.prems e have "tag \<notin> fst ` set acc" by auto
  then have "map_of acc tag = None" by (simp add: map_of_eq_None_iff)
  then have ms: "mapSet tag (namesOfOperations ops) acc = acc @ [(tag, namesOfOperations ops)]"
    by (rule mapSet_fresh)
  have "distinct (map fst (acc @ [(tag, namesOfOperations ops)]) @ map fst groups)"
    using Cons.prems e by auto
  from Cons.IH[OF this] show ?case by (simp add: e ms)
qed

lemma tagSchemaNames_map:
  "distinct (map fst groups) \<Longrightarrow>
   tagSchemaNames groups = map (\<lambda>(tag, ops). (tag, namesOfOperations ops)) groups"
  unfolding tagSchemaNames_def using tagSchemaNames_foldl[of "[]" groups] by simp

lemma set_foldl_cond_setAdd:
  "set (foldl (\<lambda>common name. if P name then setAdd name common else common) acc xs)
     = set acc \<union> {n \<in> set xs. P n}"
  by (induction xs arbitrary: acc) (auto simp: setAdd_def)

lemma distinct_foldl_cond_setAdd:
  "distinct acc \<Longrightarrow>
   distinct (foldl (\<lambda>common name. if P name then setAdd name common else common) acc xs)"
  by (induction xs arbitrary: acc) (auto simp: setAdd_def)

lemma set_commonSchemaNames:
  "set (commonSchemaNames tsn) =
     {n \<in> (\<Union>e\<in>set tsn. set (snd e)). 1 < length (filter (\<lambda>(tag, names). n \<in> set names) tsn)}"
  unfolding commonSchemaNames_def allSchemaNames_def
  by (simp add: set_foldl_cond_setAdd set_foldl_setAdd)

lemma distinct_commonSchemaNames: "distinct (commonSchemaNames tsn)"
  unfolding commonSchemaNames_def by (rule distinct_foldl_cond_setAdd) simp

lemma length_gt1_distinct:
  "distinct xs \<Longrightarrow> 1 < length xs \<longleftrightarrow> (\<exists>x\<in>set xs. \<exists>y\<in>set xs. x \<noteq> y)"
proof (cases xs)
  case Nil
  then show "distinct xs \<Longrightarrow> ?thesis" by simp
next
  case (Cons a ys)
  then show "distinct xs \<Longrightarrow> ?thesis" by (cases ys) auto
qed

lemma shared_count:
  "1 < length (filter (\<lambda>(tag, names). n \<in> set names) (tagSchemaNames (tagGroups ops))) \<longleftrightarrow>
     (\<exists>a\<in>set ops. \<exists>b\<in>set ops. primaryTag a \<noteq> primaryTag b \<and>
        n \<in> set (schemaNames a) \<and> n \<in> set (schemaNames b))"
proof -
  let ?tsn = "tagSchemaNames (tagGroups ops)"
  have tsn: "?tsn = map (\<lambda>(tag, os). (tag, namesOfOperations os)) (tagGroups ops)"
    by (rule tagSchemaNames_map) (rule tagGroups_distinct)
  have keys: "map fst ?tsn = map fst (tagGroups ops)"
    unfolding tsn by (simp add: comp_def split_beta)
  have dk: "distinct (map fst ?tsn)" unfolding keys by (rule tagGroups_distinct)
  then have d: "distinct ?tsn" by (rule distinct_map[THEN iffD1, THEN conjunct1])
  have mem: "(t, ns) \<in> set ?tsn \<longleftrightarrow>
      t \<in> primaryTag ` set ops \<and>
      ns = namesOfOperations (filter (\<lambda>operation. primaryTag operation = t) ops)" for t ns
    unfolding tsn by (auto simp: tagGroups_member)
  have inj: "(t, ns) \<in> set ?tsn \<Longrightarrow> (t, ns') \<in> set ?tsn \<Longrightarrow> ns = ns'" for t ns ns'
    by (simp add: mem)
  have "1 < length (filter (\<lambda>(tag, names). n \<in> set names) ?tsn) \<longleftrightarrow>
      (\<exists>x\<in>set (filter (\<lambda>(tag, names). n \<in> set names) ?tsn).
       \<exists>y\<in>set (filter (\<lambda>(tag, names). n \<in> set names) ?tsn). x \<noteq> y)"
    by (rule length_gt1_distinct) (rule distinct_filter[OF d])
  also have "\<dots> \<longleftrightarrow> (\<exists>a\<in>set ops. \<exists>b\<in>set ops. primaryTag a \<noteq> primaryTag b \<and>
        n \<in> set (schemaNames a) \<and> n \<in> set (schemaNames b))"
  proof
    assume "\<exists>x\<in>set (filter (\<lambda>(tag, names). n \<in> set names) ?tsn).
       \<exists>y\<in>set (filter (\<lambda>(tag, names). n \<in> set names) ?tsn). x \<noteq> y"
    then obtain t1 ns1 t2 ns2 where x: "(t1, ns1) \<in> set ?tsn" "n \<in> set ns1"
      and y: "(t2, ns2) \<in> set ?tsn" "n \<in> set ns2" and ne: "(t1, ns1) \<noteq> (t2, ns2)"
      by auto
    from ne inj x(1) y(1) have t: "t1 \<noteq> t2" by auto
    from x obtain a where a: "a \<in> set ops" "primaryTag a = t1" "n \<in> set (schemaNames a)"
      by (auto simp: mem set_namesOfOperations)
    from y obtain b where b: "b \<in> set ops" "primaryTag b = t2" "n \<in> set (schemaNames b)"
      by (auto simp: mem set_namesOfOperations)
    from a b t show "\<exists>a\<in>set ops. \<exists>b\<in>set ops. primaryTag a \<noteq> primaryTag b \<and>
        n \<in> set (schemaNames a) \<and> n \<in> set (schemaNames b)" by blast
  next
    assume "\<exists>a\<in>set ops. \<exists>b\<in>set ops. primaryTag a \<noteq> primaryTag b \<and>
        n \<in> set (schemaNames a) \<and> n \<in> set (schemaNames b)"
    then obtain a b where a: "a \<in> set ops" "n \<in> set (schemaNames a)"
      and b: "b \<in> set ops" "n \<in> set (schemaNames b)" and t: "primaryTag a \<noteq> primaryTag b"
      by blast
    let ?na = "namesOfOperations (filter (\<lambda>operation. primaryTag operation = primaryTag a) ops)"
    let ?nb = "namesOfOperations (filter (\<lambda>operation. primaryTag operation = primaryTag b) ops)"
    have "(primaryTag a, ?na) \<in> set ?tsn" "n \<in> set ?na"
      using a by (auto simp: mem set_namesOfOperations)
    moreover have "(primaryTag b, ?nb) \<in> set ?tsn" "n \<in> set ?nb"
      using b by (auto simp: mem set_namesOfOperations)
    ultimately show "\<exists>x\<in>set (filter (\<lambda>(tag, names). n \<in> set names) ?tsn).
       \<exists>y\<in>set (filter (\<lambda>(tag, names). n \<in> set names) ?tsn). x \<noteq> y"
      using t by (intro bexI[of _ "(primaryTag a, ?na)"] bexI[of _ "(primaryTag b, ?nb)"]) auto
  qed
  finally show ?thesis .
qed

lemma set_common_of_operations:
  "set (commonSchemaNames (tagSchemaNames (tagGroups ops))) =
     {n. \<exists>a\<in>set ops. \<exists>b\<in>set ops. primaryTag a \<noteq> primaryTag b \<and>
           n \<in> set (schemaNames a) \<and> n \<in> set (schemaNames b)}"
proof -
  have "n \<in> (\<Union>e\<in>set (tagSchemaNames (tagGroups ops)). set (snd e))"
    if "a \<in> set ops" "n \<in> set (schemaNames a)" for a n
  proof -
    have "(primaryTag a, namesOfOperations (filter (\<lambda>operation. primaryTag operation = primaryTag a) ops))
        \<in> set (tagSchemaNames (tagGroups ops))"
      using that(1) by (auto simp: tagSchemaNames_map[OF tagGroups_distinct] tagGroups_member)
    moreover have "n \<in> set (namesOfOperations (filter (\<lambda>operation. primaryTag operation = primaryTag a) ops))"
      using that by (auto simp: set_namesOfOperations)
    ultimately show ?thesis by force
  qed
  then show ?thesis
    unfolding set_commonSchemaNames shared_count by blast
qed

lemma modules_lookup_other:
  "k \<notin> fst ` set groups \<Longrightarrow>
   map_of (foldl (\<lambda>modules (tag, ops). mapSet tag (F tag ops) modules) m0 groups) k = map_of m0 k"
  by (induction groups arbitrary: m0) (auto simp: map_of_mapSet)

lemma set_errorBodyNames_foldl:
  "set (foldl (\<lambda>acc name. if name \<in> set common \<and> (name @ ''Body'') \<notin> set acc
                           then acc @ [name @ ''Body''] else acc) acc0 names)
     = set acc0 \<union> (\<lambda>n. n @ ''Body'') ` {n \<in> set names. n \<in> set common}"
  by (induction names arbitrary: acc0) auto

lemma set_errorBodyNames:
  "set (errorBodyNames common ops) =
     (\<lambda>n. n @ ''Body'') ` {n \<in> set common. \<exists>operation\<in>set ops. n \<in> set (objectErrorSchemas operation)}"
  unfolding errorBodyNames_def set_errorBodyNames_foldl by auto

lemma foldl_addToGroup_same:
  "list_all (\<lambda>operation. primaryTag operation = t) ops \<Longrightarrow>
   foldl addToGroup [(t, members)] ops = [(t, members @ ops)]"
  by (induction ops arbitrary: members) (auto simp: addToGroup_def)

lemma tagGroups_single:
  "list_all (\<lambda>operation. primaryTag operation = t) ops \<Longrightarrow>
   tagGroups ops = (if ops = [] then [] else [(t, ops)])"
proof (cases ops)
  case Nil
  then show ?thesis by (simp add: tagGroups_def)
next
  case (Cons operation rest)
  assume a: "list_all (\<lambda>operation. primaryTag operation = t) ops"
  with Cons have "addToGroup [] operation = [(t, [operation])]"
    by (simp add: addToGroup_def)
  moreover from a Cons have "list_all (\<lambda>operation. primaryTag operation = t) rest" by simp
  ultimately show ?thesis
    using Cons foldl_addToGroup_same[of t rest "[operation]"] by (simp add: tagGroups_def)
qed

lemma commonSchemaNames_few: "length tsn \<le> 1 \<Longrightarrow> commonSchemaNames tsn = []"
proof -
  assume "length tsn \<le> 1"
  then have "\<not> 1 < length (filter (\<lambda>(tag, names). n \<in> set names) tsn)" for n
    using length_filter_le[of "\<lambda>(tag, names). n \<in> set names" tsn] by linarith
  then have "set (commonSchemaNames tsn) = {}"
    unfolding set_commonSchemaNames by blast
  then show ?thesis by simp
qed

lemma primaryTag_finishOperation: "primaryTag (finishOperation st) = primaryTag (oper st)"
  by (simp add: finishOperation_def Let_def primaryTag_def split: option.splits)

lemma set_setAdd: "set (setAdd x xs) = insert x (set xs)"
  by (auto simp: setAdd_def)

lemma set_addName: "set (addName name names) = nameSet name \<union> set names"
  by (auto simp: addName_def nameSet_def setAdd_def split: option.splits)

lemma set_schemaNames_finishOperation:
  "set (schemaNames (finishOperation st)) = set (schemaNames (oper st)) \<union> spec_registeredNames st"
proof (cases "defaultSchema st")
  case None
  then show ?thesis
    by (auto simp: finishOperation_def Let_def set_addName set_foldl_setAdd spec_registeredNames_def)
next
  case (Some d)
  show ?thesis
  proof (cases "length (successSchemas (oper st)) = 0 \<and> d \<noteq> []")
    case True
    then have "nameSet (defaultSchema st) = {d}" by (simp add: Some nameSet_def)
    with True show ?thesis
      by (auto simp: finishOperation_def Let_def Some set_addName set_foldl_setAdd
          spec_registeredNames_def mapSet_fresh set_setAdd)
  next
    case False
    then show ?thesis
      by (auto simp: finishOperation_def Let_def Some set_addName set_foldl_setAdd
          spec_registeredNames_def)
  qed
qed

lemma modules_lookup_tag:
  "distinct (map fst groups) \<Longrightarrow> (tag, members) \<in> set groups \<Longrightarrow>
   map_of (foldl (\<lambda>modules (t, ops). mapSet t (F t ops) modules) m0 groups) tag =
     Some (F tag members)"
proof (induction groups arbitrary: m0)
  case Nil
  then show ?case by simp
next
  case (Cons e groups)
  obtain t os where e: "e = (t, os)" by (cases e)
  show ?case
  proof (cases "(tag, members) \<in> set groups")
    case True
    from Cons.prems(1) have "distinct (map fst groups)" by simp
    from Cons.IH[OF this True] show ?thesis by (simp add: e)
  next
    case False
    with Cons.prems(2) e have te: "t = tag" "os = members" by auto
    from Cons.prems(1) e te have "tag \<notin> fst ` set groups" by auto
    from modules_lookup_other[where F = F and ?m0.0 = "mapSet tag (F tag members) m0", OF this]
    show ?thesis
      by (simp add: e te map_of_mapSet)
  qed
qed

lemma map_of_map_snd:
  "map_of (map (\<lambda>(k, v). (k, f v)) xs) t = map_option f (map_of xs t)"
  by (induction xs) auto

lemma tagSchemaNames_lookup:
  "map_of (tagSchemaNames (tagGroups ops)) t =
     (if t \<in> primaryTag ` set ops
      then Some (namesOfOperations (filter (\<lambda>operation. primaryTag operation = t) ops))
      else None)"
proof -
  have "map_of (tagSchemaNames (tagGroups ops)) t =
      map_option namesOfOperations (map_of (tagGroups ops) t)"
    unfolding tagSchemaNames_map[OF tagGroups_distinct] by (rule map_of_map_snd)
  then show ?thesis by (simp add: tagGroups_lookup)
qed

lemma tagModule_fields:
  "operations_m (tagModule G T options g common tsn tag ops) = ops"
  "schemaNames_m (tagModule G T options g common tsn tag ops) =
     (case map_of tsn tag of None \<Rightarrow> [] | Some names \<Rightarrow> names)"
  by (simp_all add: tagModule_def Let_def)

lemma spec_reexportLine_nonempty: "spec_reexportLine ext names \<noteq> []"
  by (simp add: spec_reexportLine_def)

lemma tagModule_reexports:
  assumes "map_of tsn tag = Some schemas"
    and "reexports = filter (\<lambda>n. n \<in> set common) schemas @ errorBodyNames common ops"
    and "reexports \<noteq> []"
  shows "sublist (spec_reexportLine (case ext_o options of None \<Rightarrow> ''.js'' | Some e \<Rightarrow> e) reexports)
           (source_m (tagModule G T options g common tsn tag ops))"
proof -
  let ?line = "spec_reexportLine (case ext_o options of None \<Rightarrow> ''.js'' | Some e \<Rightarrow> e) reexports"
  have re: "(if 0 < length common then filter (\<lambda>n. n \<in> set common) schemas else []) @
      errorBodyNames common ops = reexports"
    unfolding assms(2) by (cases common) simp_all
  obtain front rest where src: "source_m (tagModule G T options g common tsn tag ops) =
      joinWith [newline, newline] (filter (\<lambda>p. p \<noteq> []) (front @ [?line] @ rest))"
  proof -
    let ?streaming = "if list_ex (\<lambda>operation. truthyName (streamSchema operation)) ops
             then ''import * as Sse from \"@effect/experimental/Sse\"'' @ [newline] @
                  ''import * as Stream from \"effect/Stream\"''
             else []"
    let ?tagSchemas = "generateSchemas G g
      (foldl (\<lambda>s name. if name \<notin> set common then setAdd name s else s) [] schemas)"
    have "source_m (tagModule G T options g common tsn tag ops) =
      joinWith [newline, newline] (filter (\<lambda>p. p \<noteq> [])
        (([imports_t T] @ (if ?streaming \<noteq> [] then [?streaming] else [])) @ [?line] @
         ((if ?tagSchemas \<noteq> [] then [?tagSchemas] else []) @
          [toImplementation T (name_o options) ops, toTypes T (name_o options) ops])))"
      unfolding tagModule_def Let_def assms(1) option.case re
      using assms(3) spec_reexportLine_nonempty[of "case ext_o options of None \<Rightarrow> ''.js'' | Some e \<Rightarrow> e" reexports]
      unfolding spec_reexportLine_def
      by (simp del: joinWith.simps)
    then show ?thesis by (rule that)
  qed
  have "?line \<in> set (filter (\<lambda>p. p \<noteq> []) (front @ [?line] @ rest))"
    using spec_reexportLine_nonempty by simp
  then show ?thesis unfolding src by (rule joinWith_member)
qed

lemma distinct_errorBodyNames_foldl:
  "distinct acc0 \<Longrightarrow>
   distinct (foldl (\<lambda>acc name. if name \<in> set common \<and> (name @ ''Body'') \<notin> set acc
                           then acc @ [name @ ''Body''] else acc) acc0 names)"
  by (induction names arbitrary: acc0) auto

lemma distinct_errorBodyNames: "distinct (errorBodyNames common ops)"
  unfolding errorBodyNames_def by (rule distinct_errorBodyNames_foldl) simp

text \<open>
  C5. The claim: when every operation belongs to one tag group, the module map never
  contains a module \<open>_common\<close>. A tag may itself be called \<open>_common\<close>: the only
  operation of this document has the tag \<open>_common\<close>, and the module map consists of the
  entry \<open>_common\<close>, which is the module of that tag, with its operation.
\<close>

theorem common_tag_counterexample:
  "list_all (\<lambda>operation. primaryTag operation = ''_common'') [commonTagOperation] \<and>
   map fst (generateModules recordingGenerator plainTransformer clientOptions []
              [commonTagOperation]) = [''_common''] \<and>
   map_option (\<lambda>m. (schemaNames_m m, map id_op (operations_m m)))
     (map_of (generateModules recordingGenerator plainTransformer clientOptions []
                [commonTagOperation]) ''_common'') =
     Some ([''Thing'', ''Error''], [''listThings''])"
  by code_simp

text \<open>
  C5, amended. When every operation has the same primary tag \<open>t\<close>, no schema name is
  shared, the branch that emits the shared module is not taken, and the module map
  consists of the module of \<open>t\<close> alone, built with no shared names (the map is empty
  when there is no operation), however many schema names the operations have in common.
  The map has an entry \<open>_common\<close> only when the tag itself is called \<open>_common\<close>.
\<close>

theorem single_tag_no_common_module:
  assumes "list_all (\<lambda>operation. primaryTag operation = t) ops"
  shows "commonSchemaNames (tagSchemaNames (tagGroups ops)) = [] \<and>
         generateModules G T options g ops =
           (if ops = [] then []
            else [(t, tagModule G T options g [] [(t, namesOfOperations ops)] t ops)]) \<and>
         map fst (generateModules G T options g ops) = (if ops = [] then [] else [t]) \<and>
         (t \<noteq> ''_common'' \<longrightarrow> map_of (generateModules G T options g ops) ''_common'' = None)"
proof -
  have tg: "tagGroups ops = (if ops = [] then [] else [(t, ops)])"
    by (rule tagGroups_single[OF assms])
  have len: "length (tagSchemaNames (tagGroups ops)) \<le> 1"
    by (simp add: tg tagSchemaNames_def)
  have common: "commonSchemaNames (tagSchemaNames (tagGroups ops)) = []"
    by (rule commonSchemaNames_few[OF len])
  have tsn: "ops \<noteq> [] \<Longrightarrow> tagSchemaNames (tagGroups ops) = [(t, namesOfOperations ops)]"
    by (simp add: tg tagSchemaNames_def)
  have all: "generateModules G T options g ops =
           (if ops = [] then []
            else [(t, tagModule G T options g [] [(t, namesOfOperations ops)] t ops)])"
  proof (cases "ops = []")
    case True
    then show ?thesis
      unfolding generateModules_def Let_def common by (simp add: tagGroups_def)
  next
    case False
    have "commonSchemaNames [(t, namesOfOperations ops)] = []"
      by (rule commonSchemaNames_few) simp
    with False show ?thesis
      unfolding generateModules_def Let_def tsn[OF False] by (simp add: tg)
  qed
  have keys: "map fst (generateModules G T options g ops) = (if ops = [] then [] else [t])"
    unfolding all by simp
  have "t \<noteq> ''_common'' \<longrightarrow> map_of (generateModules G T options g ops) ''_common'' = None"
    unfolding all by simp
  with common all keys show ?thesis by blast
qed

lemma pets_same_tag:
  "list_all (\<lambda>operation. primaryTag operation = ''pets'') [petsOperation, petsCreateOperation]"
  by (simp add: primaryTag_def petsOperation_def petsCreateOperation_def newOperation_def)

theorem single_tag_no_common_module_witness:
  "list_all (\<lambda>operation. primaryTag operation = ''pets'') [petsOperation, petsCreateOperation] \<and>
   commonSchemaNames (tagSchemaNames (tagGroups [petsOperation, petsCreateOperation])) = [] \<and>
   map fst (generateModules recordingGenerator plainTransformer clientOptions []
              [petsOperation, petsCreateOperation]) = [''pets''] \<and>
   map_of (generateModules recordingGenerator plainTransformer clientOptions []
              [petsOperation, petsCreateOperation]) ''_common'' = None"
proof -
  note single = single_tag_no_common_module[OF pets_same_tag,
      of recordingGenerator plainTransformer clientOptions "[]"]
  from single have 1:
    "commonSchemaNames (tagSchemaNames (tagGroups [petsOperation, petsCreateOperation])) = []"
    by (rule conjunct1)
  from single have 2: "map fst (generateModules recordingGenerator plainTransformer clientOptions []
              [petsOperation, petsCreateOperation]) = [''pets'']"
    by simp
  have "''pets'' \<noteq> ''_common''" by simp
  with single have 3: "map_of (generateModules recordingGenerator plainTransformer clientOptions []
              [petsOperation, petsCreateOperation]) ''_common'' = None"
    by blast
  from pets_same_tag 1 2 3 show ?thesis by (intro conjI)
qed

text \<open>
  C4. The claim counts a name as referenced by a tag group also when the group only
  requires it transitively. \<open>listPets\<close> under the tag \<open>pets\<close> uses \<open>ListPets200\<close>,
  \<open>listUsers\<close> under the tag \<open>users\<close> uses \<open>ListUsers200\<close>, and both schemas depend on
  \<open>Pet\<close>: by the claim \<open>Pet\<close> is shared and the module \<open>_common\<close> holds it; the code
  emits the two tag modules and no module \<open>_common\<close>. And when a tag is itself called
  \<open>_common\<close>, the entry \<open>_common\<close> is the module of that tag, which replaces the shared
  module: with \<open>Error\<close> the only shared name, the entry lists \<open>Thing\<close> and \<open>Error\<close> and
  the operation of the tag.
\<close>

theorem transitively_shared_counterexample:
  "spec_commonNames petRequirements [petsListOnly, usersListOnly] = [''Pet''] \<and>
   map fst (generateModules recordingGenerator plainTransformer clientOptions []
              [petsListOnly, usersListOnly]) = [''pets'', ''users''] \<and>
   commonSchemaNames (tagSchemaNames (tagGroups [commonTagOperation, usersOperation])) =
     [''Error''] \<and>
   map fst (generateModules recordingGenerator plainTransformer clientOptions []
              [commonTagOperation, usersOperation]) = [''_common'', ''users''] \<and>
   map_option (\<lambda>m. (schemaNames_m m, map id_op (operations_m m)))
     (map_of (generateModules recordingGenerator plainTransformer clientOptions []
                [commonTagOperation, usersOperation]) ''_common'') =
     Some ([''Thing'', ''Error''], [''listThings''])"
  by code_simp

text \<open>
  C4, amended. Let the operations be the results of \<open>finishOperation\<close> on the states in
  which their walks end, each with \<open>schemaNames\<close> empty before. The shared names are
  exactly the names that operations of two different tag groups both register directly
  (parameter, payload, success, error, default and stream schema names), each once; names
  that are only required transitively are not counted. When no tag is called \<open>_common\<close>,
  the module \<open>_common\<close> exists exactly when there is a shared name, lists the shared
  names and no operation, and its source is the imports followed by what the generator
  emits when asked for exactly these names; when a tag is called \<open>_common\<close>, the entry is
  the module of that tag. The module of a tag has the operations of the tag and the names
  they list, and when the tag uses shared names its source has the line that imports from
  \<open>_common\<close> and exports again the shared names it lists followed by the body structs
  \<open>nBody\<close> of the shared names \<open>n\<close> that are tagged-error schemas of its operations
  (each once).
\<close>

theorem common_module_direct_names:
  assumes "\<forall>st\<in>set sts. schemaNames (oper st) = []"
    and "ops = map finishOperation sts"
    and "common = commonSchemaNames (tagSchemaNames (tagGroups ops))"
    and "modules = generateModules G T options g ops"
    and "tagOps = filter (\<lambda>operation. primaryTag operation = tag) ops"
    and "reexports =
           filter (\<lambda>n. n \<in> set common) (namesOfOperations tagOps) @ errorBodyNames common tagOps"
  shows "set common =
           {n. \<exists>a\<in>set sts. \<exists>b\<in>set sts. primaryTag (oper a) \<noteq> primaryTag (oper b) \<and>
                 n \<in> spec_registeredNames a \<and> n \<in> spec_registeredNames b} \<and>
         distinct common \<and>
         map_of modules ''_common'' =
           (if ''_common'' \<in> primaryTag ` set ops
            then Some (tagModule G T options g common (tagSchemaNames (tagGroups ops)) ''_common''
                         (filter (\<lambda>operation. primaryTag operation = ''_common'') ops))
            else if common = [] then None
            else Some \<lparr>source_m = imports_t T @ [newline, newline] @ generateSchemas G g common,
                       schemaNames_m = common, operations_m = []\<rparr>) \<and>
         (tag \<in> primaryTag ` set ops \<longrightarrow>
            (\<exists>m. map_of modules tag = Some m \<and> operations_m m = tagOps \<and>
                 schemaNames_m m = namesOfOperations tagOps \<and>
                 (reexports \<noteq> [] \<longrightarrow>
                    sublist (spec_reexportLine
                               (case ext_o options of None \<Rightarrow> ''.js'' | Some e \<Rightarrow> e) reexports)
                      (source_m m)))) \<and>
         set (errorBodyNames common tagOps) =
           (\<lambda>n. n @ ''Body'') `
             {n \<in> set common. \<exists>operation\<in>set tagOps. n \<in> set (objectErrorSchemas operation)} \<and>
         distinct (errorBodyNames common tagOps)"
proof -
  let ?tsn = "tagSchemaNames (tagGroups ops)"
  let ?F = "tagModule G T options g common ?tsn"
  have names: "set (schemaNames (finishOperation st)) = spec_registeredNames st"
    if "st \<in> set sts" for st
    using assms(1) that by (simp add: set_schemaNames_finishOperation)
  have "set common =
      {n. \<exists>a\<in>set ops. \<exists>b\<in>set ops. primaryTag a \<noteq> primaryTag b \<and>
            n \<in> set (schemaNames a) \<and> n \<in> set (schemaNames b)}"
    unfolding assms(3) by (rule set_common_of_operations)
  also have "\<dots> = {n. \<exists>a\<in>set sts. \<exists>b\<in>set sts. primaryTag (oper a) \<noteq> primaryTag (oper b) \<and>
                 n \<in> spec_registeredNames a \<and> n \<in> spec_registeredNames b}"
    unfolding assms(2) using names
    by (auto simp: primaryTag_finishOperation)
  finally have 1: "set common =
           {n. \<exists>a\<in>set sts. \<exists>b\<in>set sts. primaryTag (oper a) \<noteq> primaryTag (oper b) \<and>
                 n \<in> spec_registeredNames a \<and> n \<in> spec_registeredNames b}" .
  have 2: "distinct common" unfolding assms(3) by (rule distinct_commonSchemaNames)
  have modules: "modules =
      foldl (\<lambda>modules (tag, ops). mapSet tag (?F tag ops) modules)
        (if 0 < length common
         then mapSet ''_common''
                \<lparr>source_m = imports_t T @ [newline, newline] @ generateSchemas G g common,
                 schemaNames_m = common, operations_m = []\<rparr> []
         else [])
        (tagGroups ops)"
    unfolding assms(4) generateModules_def Let_def assms(3)[symmetric] ..
  have lookup: "map_of modules k =
      Some (?F k (filter (\<lambda>operation. primaryTag operation = k) ops))"
    if "k \<in> primaryTag ` set ops" for k
  proof -
    have "(k, filter (\<lambda>operation. primaryTag operation = k) ops) \<in> set (tagGroups ops)"
      using that by (simp add: tagGroups_member)
    from modules_lookup_tag[OF tagGroups_distinct this] show ?thesis
      unfolding modules .
  qed
  have 3: "map_of modules ''_common'' =
           (if ''_common'' \<in> primaryTag ` set ops
            then Some (?F ''_common'' (filter (\<lambda>operation. primaryTag operation = ''_common'') ops))
            else if common = [] then None
            else Some \<lparr>source_m = imports_t T @ [newline, newline] @ generateSchemas G g common,
                       schemaNames_m = common, operations_m = []\<rparr>)"
  proof (cases "''_common'' \<in> primaryTag ` set ops")
    case True
    then show ?thesis by (simp add: lookup)
  next
    case False
    then have "map_of (tagGroups ops) ''_common'' = None"
      by (simp add: tagGroups_lookup)
    then have nk: "''_common'' \<notin> fst ` set (tagGroups ops)"
      by (simp add: map_of_eq_None_iff)
    show ?thesis
      unfolding modules using False by (simp add: modules_lookup_other[OF nk])
  qed
  have 4: "tag \<in> primaryTag ` set ops \<longrightarrow>
            (\<exists>m. map_of modules tag = Some m \<and> operations_m m = tagOps \<and>
                 schemaNames_m m = namesOfOperations tagOps \<and>
                 (reexports \<noteq> [] \<longrightarrow>
                    sublist (spec_reexportLine
                               (case ext_o options of None \<Rightarrow> ''.js'' | Some e \<Rightarrow> e) reexports)
                      (source_m m)))"
  proof
    assume tag: "tag \<in> primaryTag ` set ops"
    have tsn: "map_of ?tsn tag = Some (namesOfOperations tagOps)"
      using tag by (simp add: tagSchemaNames_lookup assms(5))
    have m: "map_of modules tag = Some (?F tag tagOps)"
      unfolding assms(5) by (rule lookup[OF tag])
    have o: "operations_m (?F tag tagOps) = tagOps" by (rule tagModule_fields(1))
    have s: "schemaNames_m (?F tag tagOps) = namesOfOperations tagOps"
      by (simp add: tagModule_fields(2) tsn)
    have r: "reexports \<noteq> [] \<longrightarrow>
        sublist (spec_reexportLine (case ext_o options of None \<Rightarrow> ''.js'' | Some e \<Rightarrow> e) reexports)
          (source_m (?F tag tagOps))"
      by (rule impI) (rule tagModule_reexports[OF tsn assms(6)])
    from m o s r show "\<exists>m. map_of modules tag = Some m \<and> operations_m m = tagOps \<and>
                 schemaNames_m m = namesOfOperations tagOps \<and>
                 (reexports \<noteq> [] \<longrightarrow>
                    sublist (spec_reexportLine
                               (case ext_o options of None \<Rightarrow> ''.js'' | Some e \<Rightarrow> e) reexports)
                      (source_m m))"
      by blast
  qed
  have 5: "set (errorBodyNames common tagOps) =
           (\<lambda>n. n @ ''Body'') `
             {n \<in> set common. \<exists>operation\<in>set tagOps. n \<in> set (objectErrorSchemas operation)}"
    by (rule set_errorBodyNames)
  have 6: "distinct (errorBodyNames common tagOps)" by (rule distinct_errorBodyNames)
  from 1 2 3 4 5 6 show ?thesis by (intro conjI)
qed

lemma example_fresh: "\<forall>st\<in>set [petsState, usersState]. schemaNames (oper st) = []"
  by (simp add: petsState_def usersState_def newOperation_def)

lemma example_common:
  "commonSchemaNames (tagSchemaNames (tagGroups (map finishOperation [petsState, usersState]))) =
     [''Error'']"
  by code_simp

lemma example_tags:
  "''_common'' \<notin> primaryTag ` set (map finishOperation [petsState, usersState])"
  "''pets'' \<in> primaryTag ` set (map finishOperation [petsState, usersState])"
  by code_simp+

lemma example_reexports:
  "filter (\<lambda>n. n \<in> set [''Error''])
     (namesOfOperations (filter (\<lambda>operation. primaryTag operation = ''pets'')
        (map finishOperation [petsState, usersState]))) @
   errorBodyNames [''Error''] (filter (\<lambda>operation. primaryTag operation = ''pets'')
        (map finishOperation [petsState, usersState])) = [''Error'', ''ErrorBody'']"
  by code_simp

lemma example_line:
  "spec_reexportLine (case ext_o clientOptions of None \<Rightarrow> ''.js'' | Some e \<Rightarrow> e)
     [''Error'', ''ErrorBody''] =
   ''import { Error, ErrorBody } from \"./_common.js\"'' @ [newline] @
   ''export { Error, ErrorBody }''"
  by code_simp

lemma example_shared_source:
  "generateSchemas recordingGenerator [] [''Error''] = ''Error''"
  by code_simp

theorem common_module_direct_names_witness:
  "schemaNames (oper petsState) = [] \<and> schemaNames (oper usersState) = [] \<and>
   commonSchemaNames (tagSchemaNames (tagGroups (map finishOperation [petsState, usersState]))) =
     [''Error''] \<and>
   map_of (generateModules recordingGenerator plainTransformer clientOptions []
             (map finishOperation [petsState, usersState])) ''_common'' =
     Some \<lparr>source_m = imports_t plainTransformer @ [newline, newline] @ ''Error'',
           schemaNames_m = [''Error''], operations_m = []\<rparr> \<and>
   (\<exists>m. map_of (generateModules recordingGenerator plainTransformer clientOptions []
                  (map finishOperation [petsState, usersState])) ''pets'' = Some m \<and>
        sublist (''import { Error, ErrorBody } from \"./_common.js\"'' @ [newline] @
                 ''export { Error, ErrorBody }'') (source_m m))"
proof -
  let ?ops = "map finishOperation [petsState, usersState]"
  let ?modules = "generateModules recordingGenerator plainTransformer clientOptions [] ?ops"
  note direct = common_module_direct_names[OF example_fresh refl example_common[symmetric] refl
      refl example_reexports[symmetric],
      of recordingGenerator plainTransformer clientOptions "[]"]
  have f: "schemaNames (oper petsState) = []" "schemaNames (oper usersState) = []"
    using example_fresh by simp_all
  from direct have "map_of ?modules ''_common'' =
      (if ''_common'' \<in> primaryTag ` set ?ops
       then Some (tagModule recordingGenerator plainTransformer clientOptions [] [''Error'']
                    (tagSchemaNames (tagGroups ?ops)) ''_common''
                    (filter (\<lambda>operation. primaryTag operation = ''_common'') ?ops))
       else if [''Error''] = ([] :: string list) then None
       else Some \<lparr>source_m = imports_t plainTransformer @ [newline, newline] @
                     generateSchemas recordingGenerator [] [''Error''],
                  schemaNames_m = [''Error''], operations_m = []\<rparr>)"
    by blast
  then have c: "map_of ?modules ''_common'' =
      Some \<lparr>source_m = imports_t plainTransformer @ [newline, newline] @ ''Error'',
            schemaNames_m = [''Error''], operations_m = []\<rparr>"
    using example_tags(1) by (simp add: example_shared_source)
  from direct example_tags(2) have "\<exists>m. map_of ?modules ''pets'' = Some m \<and>
      ([''Error'', ''ErrorBody''] \<noteq> ([] :: string list) \<longrightarrow>
        sublist (spec_reexportLine (case ext_o clientOptions of None \<Rightarrow> ''.js'' | Some e \<Rightarrow> e)
                   [''Error'', ''ErrorBody'']) (source_m m))"
    by blast
  then have p: "\<exists>m. map_of ?modules ''pets'' = Some m \<and>
        sublist (''import { Error, ErrorBody } from \"./_common.js\"'' @ [newline] @
                 ''export { Error, ErrorBody }'') (source_m m)"
    unfolding example_line by simp
  from f example_common c p show ?thesis by (intro conjI)
qed

end
